theory Spec2Isabelle
  imports Main "HOL-Library.Sublist"
begin

section \<open>Strings as the C++ code uses them\<close>

text \<open>
  A \<^verbatim>\<open>std::string\<close> is a list of bytes. \<^verbatim>\<open>std::string::npos\<close> is the largest
  \<^verbatim>\<open>size_t\<close> (64 bits); \<^verbatim>\<open>find\<close> returns it when nothing is found, and
  \<^verbatim>\<open>substr\<close> throws \<^verbatim>\<open>std::out_of_range\<close> when its position lies beyond the end.
\<close>

datatype error =
    RuntimeError string     \<comment> \<open>\<^verbatim>\<open>std::runtime_error\<close> with its message\<close>
  | SSHFSMissingError       \<comment> \<open>\<^verbatim>\<open>mp::SSHFSMissingError\<close>\<close>
  | OutOfRange              \<comment> \<open>\<^verbatim>\<open>std::out_of_range\<close>\<close>
  | InvalidArgument         \<comment> \<open>\<^verbatim>\<open>std::invalid_argument\<close>\<close>
  | SystemError             \<comment> \<open>\<^verbatim>\<open>std::system_error\<close>\<close>
  | NeverReturns            \<comment> \<open>no exception: the remote command does not terminate, the call blocks\<close>
  | Unmodelled              \<comment> \<open>no exception: the remote model does not cover the command line\<close>

definition npos :: nat where
  "npos = 18446744073709551615"

definition char_at :: "string \<Rightarrow> nat \<Rightarrow> char" where
  \<comment> \<open>\<^verbatim>\<open>s[i]\<close> on a const string; \<^verbatim>\<open>s[s.size()]\<close> is the terminating NUL\<close>
  "char_at s i = (if i < length s then s ! i else CHR 0x00)"

fun index_from :: "char \<Rightarrow> string \<Rightarrow> nat \<Rightarrow> nat option" where
  "index_from c [] i = None"
| "index_from c (x # xs) i = (if x = c then Some i else index_from c xs (Suc i))"

definition find_char :: "string \<Rightarrow> char \<Rightarrow> nat \<Rightarrow> nat" where
  \<comment> \<open>\<^verbatim>\<open>s.find(c, pos)\<close>; \<^verbatim>\<open>s.find_first_of(c)\<close> is \<open>find_char s c 0\<close>\<close>
  "find_char s c pos = (case index_from c (drop pos s) pos of None \<Rightarrow> npos | Some i \<Rightarrow> i)"

definition substr :: "string \<Rightarrow> nat \<Rightarrow> nat \<Rightarrow> error + string" where
  \<comment> \<open>\<^verbatim>\<open>s.substr(pos, n)\<close>\<close>
  "substr s pos n = (if length s < pos then Inl OutOfRange else Inr (take n (drop pos s)))"

definition pop_back :: "string \<Rightarrow> string" where
  \<comment> \<open>only called on a non-empty string\<close>
  "pop_back s = butlast s"

definition isspace :: "char \<Rightarrow> bool" where
  \<comment> \<open>\<^verbatim>\<open>std::isspace\<close> in the C locale: space, \<^verbatim>\<open>\t \n \v \f \r\<close>\<close>
  "isspace c = (c = CHR 0x20 \<or> c = CHR 0x09 \<or> c = CHR 0x0A \<or> c = CHR 0x0B \<or> c = CHR 0x0C \<or> c = CHR 0x0D)"

definition isdigit :: "char \<Rightarrow> bool" where
  "isdigit c = (48 \<le> (of_char c :: nat) \<and> (of_char c :: nat) \<le> 57)"

definition trim_end :: "string \<Rightarrow> string" where
  \<comment> \<open>Modelled from the spec: \<^verbatim>\<open>mp::utils::trim_end\<close> (declared in multipass/utils.h, its
      body is not part of sshfs_mount.cpp): "strip trailing whitespace from the raw capture".\<close>
  "trim_end s = rev (dropWhile isspace (rev s))"

definition digits_value :: "string \<Rightarrow> int" where
  "digits_value ds = foldl (\<lambda>a c. 10 * a + (int (of_char c) - 48)) 0 ds"

definition stoi :: "string \<Rightarrow> error + int" where
  \<comment> \<open>\<^verbatim>\<open>std::stoi(str)\<close>, base 10, result a 32-bit \<^verbatim>\<open>int\<close>: leading whitespace, an
      optional sign, then the longest run of digits\<close>
  "stoi str =
     (let s1 = dropWhile isspace str;
          neg = (s1 \<noteq> [] \<and> hd s1 = CHR ''-'');
          s2 = (if s1 \<noteq> [] \<and> (hd s1 = CHR ''-'' \<or> hd s1 = CHR ''+'') then tl s1 else s1);
          ds = takeWhile isdigit s2;
          v = (if neg then - digits_value ds else digits_value ds)
      in if ds = [] then Inl InvalidArgument
         else if v < - 2147483648 \<or> 2147483647 < v then Inl OutOfRange
         else Inr v)"


section \<open>The SSH session and the logger\<close>

text \<open>
  \<^verbatim>\<open>SSHSession::exec\<close> sends a command line to the remote host and hands back a process
  with an exit code and the two captured streams. The session is a collaborator of the mount
  code: here it is a transport function over an arbitrary remote state \<open>'h\<close>, which answers
  with a process and the next remote state, or never answers (\<open>Hang\<close>), or is a model that
  does not cover the command line (\<open>NotModelled\<close>). The field \<open>sent\<close> records the command
  lines in the order they were sent; \<open>logged\<close> is what \<^verbatim>\<open>mpl::log\<close> received;
  \<open>current_path\<close> is the working directory of the local process (which \<^verbatim>\<open>QDir\<close>
  consults for relative paths) and \<open>source_file\<close> the value of \<^verbatim>\<open>__FILE__\<close>.
\<close>

record ssh_process =
  exit_code :: int
  std_output :: string
  std_error :: string

datatype 'h reply = Answer ssh_process 'h | Hang | NotModelled

datatype level = Error | Warning | Info | Debug

record 'h state =
  transport :: "'h \<Rightarrow> string \<Rightarrow> 'h reply"
  remote :: 'h
  sent :: "string list"
  logged :: "(level \<times> string \<times> string) list"
  current_path :: string
  source_file :: string

type_synonym ('a, 'h) action = "'h state \<Rightarrow> (error + 'a) \<times> 'h state"

definition returns :: "'a \<Rightarrow> ('a, 'h) action" where
  "returns x s = (Inr x, s)"

definition throws :: "error \<Rightarrow> ('a, 'h) action" where
  "throws e s = (Inl e, s)"

definition and_then :: "('a, 'h) action \<Rightarrow> ('a \<Rightarrow> ('b, 'h) action) \<Rightarrow> ('b, 'h) action" where
  "and_then m f s = (case m s of (Inl e, s1) \<Rightarrow> (Inl e, s1) | (Inr x, s1) \<Rightarrow> f x s1)"

definition lift :: "error + 'a \<Rightarrow> ('a, 'h) action" where
  "lift r s = (r, s)"

definition category :: string where
  "category = ''sshfs mount''"

definition log :: "level \<Rightarrow> string \<Rightarrow> string \<Rightarrow> (unit, 'h) action" where
  "log lvl cat msg s = (Inr (), s\<lparr>logged := logged s @ [(lvl, cat, msg)]\<rparr>)"

definition exec :: "string \<Rightarrow> (ssh_process, 'h) action" where
  "exec cmd s =
     (case transport s (remote s) cmd of
        Answer p h \<Rightarrow> (Inr p, s\<lparr>remote := h, sent := sent s @ [cmd]\<rparr>)
      | Hang \<Rightarrow> (Inl NeverReturns, s\<lparr>sent := sent s @ [cmd]\<rparr>)
      | NotModelled \<Rightarrow> (Inl Unmodelled, s\<lparr>sent := sent s @ [cmd]\<rparr>))"


section \<open>Running remote commands\<close>

definition run_cmd_with :: "string \<Rightarrow> (ssh_process \<Rightarrow> (unit, 'h) action) \<Rightarrow> (string, 'h) action" where
  \<comment> \<open>the template \<^verbatim>\<open>run_cmd(session, cmd, error_handler)\<close>\<close>
  "run_cmd_with cmd error_handler =
     and_then (exec cmd) (\<lambda>ssh_process.
       and_then (if exit_code ssh_process \<noteq> 0 then error_handler ssh_process else returns ())
         (\<lambda>_. returns (std_output ssh_process)))"

definition run_cmd :: "string \<Rightarrow> (string, 'h) action" where
  "run_cmd cmd = run_cmd_with cmd (\<lambda>proc. throws (RuntimeError (std_error proc)))"

definition run_string_cmd :: "string \<Rightarrow> (string, 'h) action" where
  "run_string_cmd cmd =
     and_then (run_cmd (''echo `'' @ cmd @ ''`-'')) (\<lambda>ret.
       let ret1 = trim_end ret in
       returns (if length ret1 \<noteq> 0 then pop_back ret1 else ret1))"

definition check_sshfs_exists :: "(unit, 'h) action" where
  "check_sshfs_exists =
     and_then
       (run_cmd_with ''which sshfs'' (\<lambda>proc.
          and_then
            (log Warning category (''Unable to determine if 'sshfs' is installed: '' @ std_error proc))
            (\<lambda>_. throws SSHFSMissingError)))
       (\<lambda>_. returns ())"


section \<open>Home-directory expansion\<close>

definition expand_home_directory :: "string \<Rightarrow> (string, 'h) action" where
  "expand_home_directory target =
     (if CHR ''~'' = char_at target 0 then
        (let pos = (if 1 = length target then 1 else find_char target CHR ''/'' 1) in
         and_then
           (if 1 = pos then run_string_cmd ''pwd''
            else
              and_then (lift (substr target 1 (pos - 1))) (\<lambda>username.
              and_then (run_string_cmd (''getent passwd '' @ username @ '' | cut -d : -f 6'')) (\<lambda>home.
                if 0 = length home
                then throws (RuntimeError
                       (''user '' @ username @ '' does not exist or does not have a home defined''))
                else returns home)))
           (\<lambda>home.
              and_then (lift (substr target pos (length target - 1))) (\<lambda>rest.
              returns (home @ rest))))
      else returns target)"


section \<open>The parts of Qt's QDir that the path split calls\<close>

text \<open>
  \<^verbatim>\<open>QDir\<close> belongs to the Qt library. A \<^verbatim>\<open>QDir\<close> object is represented by the path it
  stores: the constructor replaces an empty path by \<^verbatim>\<open>"."\<close> and removes one trailing
  slash from a path longer than one character. \<^verbatim>\<open>cleanPath\<close> removes empty and
  \<^verbatim>\<open>"."\<close> segments and resolves \<^verbatim>\<open>".."\<close> segments as far as possible.
  \<^verbatim>\<open>relativeFilePath\<close> compares the segments of the cleaned directory with those of the
  cleaned file name; for a directory relative to itself it answers \<^verbatim>\<open>"."\<close>. Paths are
  those of the local-file engine on Unix (no resource paths starting with a colon); the
  conversions between \<^verbatim>\<open>QString\<close> and \<^verbatim>\<open>std::string\<close> are the identity on them.
\<close>

fun split_where :: "(char \<Rightarrow> bool) \<Rightarrow> string \<Rightarrow> string list" where
  \<comment> \<open>the pieces between the separators, empty ones included\<close>
  "split_where P [] = [[]]"
| "split_where P (x # xs) =
     (if P x then [] # split_where P xs
      else (case split_where P xs of w # ws \<Rightarrow> (x # w) # ws | [] \<Rightarrow> [[x]]))"

definition split_on :: "char \<Rightarrow> string \<Rightarrow> string list" where
  "split_on c = split_where (\<lambda>x. x = c)"

fun join_with :: "string \<Rightarrow> string list \<Rightarrow> string" where
  "join_with sep [] = []"
| "join_with sep [w] = w"
| "join_with sep (w # v # ws) = w @ sep @ join_with sep (v # ws)"

definition segments :: "string \<Rightarrow> string list" where
  \<comment> \<open>\<^verbatim>\<open>split('/', SkipEmptyParts)\<close>\<close>
  "segments p = filter (\<lambda>w. w \<noteq> []) (split_on CHR ''/'' p)"

fun resolve_dots :: "bool \<Rightarrow> string list \<Rightarrow> string list \<Rightarrow> string list" where
  \<comment> \<open>the kept segments are accumulated in reverse\<close>
  "resolve_dots rooted acc [] = rev acc"
| "resolve_dots rooted acc (w # ws) =
     (if w = ''.'' then resolve_dots rooted acc ws
      else if w = ''..'' then
        (case acc of
           [] \<Rightarrow> if rooted then resolve_dots rooted [] ws else resolve_dots rooted [w] ws
         | a # as \<Rightarrow> if a = ''..'' then resolve_dots rooted (w # acc) ws
                     else resolve_dots rooted as ws)
      else resolve_dots rooted (w # acc) ws)"

definition isRelativePath :: "string \<Rightarrow> bool" where
  "isRelativePath p = (p = [] \<or> hd p \<noteq> CHR ''/'')"

definition cleanPath :: "string \<Rightarrow> string" where
  "cleanPath p =
     (if p = [] then []
      else let rooted = \<not> isRelativePath p;
               kept = join_with ''/'' (resolve_dots rooted [] (segments p))
           in if rooted then CHR ''/'' # kept else if kept = [] then ''.'' else kept)"

definition QDir :: "string \<Rightarrow> string" where
  "QDir path =
     (let p = (if path = [] then ''.'' else path)
      in if last p = CHR ''/'' \<and> 1 < length p then butlast p else p)"

definition isRelative :: "string \<Rightarrow> bool" where
  "isRelative dir = isRelativePath dir"

definition absolutePath :: "string \<Rightarrow> string \<Rightarrow> string" where
  \<comment> \<open>the first argument is the current directory of the local process\<close>
  "absolutePath cur dir = cleanPath (if isRelativePath dir then cur @ ''/'' @ dir else dir)"

fun common_prefix_length :: "string list \<Rightarrow> string list \<Rightarrow> nat" where
  "common_prefix_length (x # xs) (y # ys) = (if x = y then Suc (common_prefix_length xs ys) else 0)"
| "common_prefix_length _ _ = 0"

definition relativeFilePath :: "string \<Rightarrow> string \<Rightarrow> string \<Rightarrow> string" where
  "relativeFilePath cur dir fileName =
     (let d = cleanPath (absolutePath cur dir);
          file = cleanPath fileName
      in if isRelativePath file \<or> isRelativePath d then file
         else let dirElts = segments d;
                  fileElts = segments file;
                  i = common_prefix_length dirElts fileElts;
                  result = concat (replicate (length dirElts - i) ''../'')
                           @ join_with ''/'' (drop i fileElts)
              in if result = [] then ''.'' else result)"


section \<open>Splitting the target, creating it, giving it to the user\<close>

text \<open>The three format strings of these functions, filled in.\<close>

definition find_existing_cmd :: "string \<Rightarrow> string" where
  \<open>find_existing_cmd absolute =
     ''sudo /bin/bash -c 'P="'' @ absolute
       @ ''"; while [ ! -d "$P/" ]; do P=${P%/*}; done; echo $P/'' @ [CHR 0x27]\<close>

definition mkdir_cmd :: "string \<Rightarrow> string \<Rightarrow> string" where
  \<open>mkdir_cmd root relative_target =
     ''sudo /bin/bash -c 'cd "'' @ root @ ''" && mkdir -p "'' @ relative_target @ ''"'' @ [CHR 0x27]\<close>

definition chown_cmd :: "string \<Rightarrow> string \<Rightarrow> string \<Rightarrow> string \<Rightarrow> string" where
  \<open>chown_cmd root vm_user vm_group first_dir =
     ''sudo /bin/bash -c 'cd "'' @ root @ ''" && chown -R '' @ vm_user @ '':'' @ vm_group
       @ '' '' @ first_dir @ [CHR 0x27]\<close>

definition get_path_split :: "string \<Rightarrow> (string \<times> string, 'h) action" where
  "get_path_split target =
     (let complete_path = QDir target in
      and_then
        (if isRelative complete_path
         then and_then (run_string_cmd ''pwd'') (\<lambda>home. returns (home @ ''/'' @ complete_path))
         else returns complete_path)
        (\<lambda>absolute.
           and_then (run_string_cmd (find_existing_cmd absolute)) (\<lambda>existing.
           (\<lambda>s. returns (existing, relativeFilePath (current_path s) (QDir existing) absolute) s))))"

definition make_target_dir :: "string \<Rightarrow> string \<Rightarrow> (unit, 'h) action" where
  "make_target_dir root relative_target =
     (if relative_target \<noteq> []
      then and_then (run_cmd (mkdir_cmd root relative_target)) (\<lambda>_. returns ())
      else returns ())"

definition set_owner_for :: "string \<Rightarrow> string \<Rightarrow> (unit, 'h) action" where
  "set_owner_for root relative_target =
     and_then (run_string_cmd ''id -nu'') (\<lambda>vm_user.
     and_then (run_string_cmd ''id -ng'') (\<lambda>vm_group.
       let first_slash = find_char relative_target CHR ''/'' 0 in
       and_then
         (if npos = first_slash then returns relative_target
          else lift (substr relative_target 0 first_slash))
         (\<lambda>first_dir.
            and_then (run_cmd (chown_cmd root vm_user vm_group first_dir)) (\<lambda>_. returns ()))))"

text \<open>
  \<^verbatim>\<open>make_sftp_server\<close> ends by constructing an \<^verbatim>\<open>SftpServer\<close>, a class defined
  elsewhere: the model returns the arguments the constructor receives.
\<close>

record sftp_server =
  server_source :: string
  server_target :: string
  server_gid_map :: "int \<rightharpoonup> int"
  server_uid_map :: "int \<rightharpoonup> int"
  server_default_uid :: int
  server_default_gid :: int

definition location :: "string \<Rightarrow> string \<Rightarrow> string" where
  \<comment> \<open>\<^verbatim>\<open>"{}:{} {}"\<close> filled with \<^verbatim>\<open>__FILE__\<close>, \<^verbatim>\<open>__LINE__\<close>, \<^verbatim>\<open>__FUNCTION__\<close>\<close>
  "location file line = file @ '':'' @ line @ '' make_sftp_server''"

definition make_sftp_server ::
  "string \<Rightarrow> string \<Rightarrow> (int \<rightharpoonup> int) \<Rightarrow> (int \<rightharpoonup> int) \<Rightarrow> (sftp_server, 'h) action" where
  "make_sftp_server source target gid_map uid_map =
     and_then (\<lambda>s. log Debug category
                 (location (source_file s) ''171'' @ ''(source = '' @ source @ '', target = '' @ target
                    @ '', '' @ [CHR 0xE2, CHR 0x80, CHR 0xA6] @ ''): '') s) (\<lambda>_.
     and_then check_sshfs_exists (\<lambda>_.
     and_then (expand_home_directory target) (\<lambda>expanded_target.
     and_then (get_path_split expanded_target) (\<lambda>(leading, missing).
     and_then (make_target_dir leading missing) (\<lambda>_.
     and_then (set_owner_for leading missing) (\<lambda>_.
     and_then (run_cmd ''id -u'') (\<lambda>output.
     and_then (\<lambda>s. log Debug category
                 (location (source_file s) ''188'' @ ''(): `id -u` = '' @ output) s) (\<lambda>_.
     and_then (lift (stoi output)) (\<lambda>default_uid.
     and_then (run_cmd ''id -g'') (\<lambda>output.
     and_then (\<lambda>s. log Debug category
                 (location (source_file s) ''192'' @ ''(): `id -g` = '' @ output) s) (\<lambda>_.
     and_then (lift (stoi output)) (\<lambda>default_gid.
     returns \<lparr>server_source = source, server_target = expanded_target,
              server_gid_map = gid_map, server_uid_map = uid_map,
              server_default_uid = default_uid, server_default_gid = default_gid\<rparr>))))))))))))"


section \<open>A scripted session\<close>

text \<open>
  A transport that answers from a table of command lines and never changes the remote
  state; a command line that is not in the table is answered as an unknown command.
\<close>

definition ok :: "string \<Rightarrow> ssh_process" where
  "ok out = \<lparr>exit_code = 0, std_output = out, std_error = []\<rparr>"

definition failed :: "int \<Rightarrow> string \<Rightarrow> ssh_process" where
  "failed code err = \<lparr>exit_code = code, std_output = [], std_error = err\<rparr>"

definition scripted :: "(string \<times> ssh_process) list \<Rightarrow> unit \<Rightarrow> string \<Rightarrow> unit reply" where
  "scripted tbl h cmd =
     (case map_of tbl cmd of
        Some p \<Rightarrow> Answer p h
      | None \<Rightarrow> Answer (failed 127 ''command not found'') h)"

definition fresh :: "('h \<Rightarrow> string \<Rightarrow> 'h reply) \<Rightarrow> 'h \<Rightarrow> 'h state" where
  "fresh t h = \<lparr>transport = t, remote = h, sent = [], logged = [],
                current_path = ''/'', source_file = ''sshfs_mount.cpp''\<rparr>"


section \<open>A POSIX host behind the session\<close>

text \<open>
  What the remote host does with a command line is decided outside the mount code, by the
  remote login shell, \<^verbatim>\<open>/bin/bash\<close> and the core utilities. To state what the mount code
  achieves on the remote file system, the host is modelled as far as the command lines of
  the mount code need it: a tree of directories, each with an owning user and group (no
  regular files, no symbolic links, and \<^verbatim>\<open>sudo\<close> always permitted), the login directory in
  which every command starts, the identity of the connecting user, the home-directory field
  of the password database, and the location of the \<^verbatim>\<open>sshfs\<close> binary if it is installed.
  A command line outside the modelled fragment is answered by \<open>NotModelled\<close>.
\<close>

record host =
  directories :: "string list \<rightharpoonup> string \<times> string"
  login_dir :: "string list"
  login_user :: string
  login_group :: string
  login_uid :: string
  login_gid :: string
  passwd_home :: "string \<rightharpoonup> string"
  sshfs_binary :: "string option"

definition render :: "string list \<Rightarrow> string" where
  \<comment> \<open>a directory, given by its segments from the root, as \<^verbatim>\<open>pwd\<close> prints it\<close>
  "render p = (if p = [] then ''/'' else concat (map ((#) CHR ''/'') p))"

definition enter :: "string list \<Rightarrow> string \<Rightarrow> string list" where
  \<comment> \<open>one step of path resolution\<close>
  "enter cur w =
     (if w = [] \<or> w = ''.'' then cur else if w = ''..'' then butlast cur else cur @ [w])"

fun walk :: "(string list \<rightharpoonup> 'o) \<Rightarrow> string list \<Rightarrow> string list \<Rightarrow> string list option" where
  "walk ds cur [] = (if ds cur = None then None else Some cur)"
| "walk ds cur (w # ws) = (if ds cur = None then None else walk ds (enter cur w) ws)"

definition resolve_from :: "(string list \<rightharpoonup> 'o) \<Rightarrow> string list \<Rightarrow> string \<Rightarrow> string list option" where
  \<comment> \<open>the directory a non-empty path string names, every step through an existing directory\<close>
  "resolve_from ds base p =
     (if p = [] then None
      else walk ds (if hd p = CHR ''/'' then [] else base) (split_on CHR ''/'' p))"

definition test_d :: "host \<Rightarrow> string \<Rightarrow> bool" where
  \<comment> \<open>\<^verbatim>\<open>[ -d p ]\<close>\<close>
  "test_d h p = (resolve_from (directories h) (login_dir h) p \<noteq> None)"

definition strip_last :: "string \<Rightarrow> string" where
  \<comment> \<open>\<^verbatim>\<open>${P%/*}\<close>: without the shortest suffix that starts with a slash\<close>
  "strip_last P = rev (drop 1 (dropWhile (\<lambda>c. c \<noteq> CHR ''/'') (rev P)))"

function existing_ancestor :: "host \<Rightarrow> string \<Rightarrow> string option" where
  \<comment> \<open>\<^verbatim>\<open>while [ ! -d "$P/" ]; do P=${P%/*}; done\<close>; without a slash in \<open>P\<close> the body
      leaves \<open>P\<close> as it is and the loop spins forever\<close>
  "existing_ancestor h P =
     (if test_d h (P @ ''/'') then Some P
      else if CHR ''/'' \<in> set P then existing_ancestor h (strip_last P)
      else None)"
  by pat_completeness auto
termination
proof (relation "measure (\<lambda>(h, P). length P)")
  show "wf (measure (\<lambda>(h, P). length P))" by simp
next
  fix h :: host and P :: string
  assume "CHR ''/'' \<in> set P"
  then have "dropWhile (\<lambda>c. c \<noteq> CHR ''/'') (rev P) \<noteq> []" by simp
  then have "length (drop 1 (dropWhile (\<lambda>c. c \<noteq> CHR ''/'') (rev P)))
               < length (dropWhile (\<lambda>c. c \<noteq> CHR ''/'') (rev P))"
    by (cases "dropWhile (\<lambda>c. c \<noteq> CHR ''/'') (rev P)") simp_all
  also have "\<dots> \<le> length (rev P)" by (rule length_dropWhile_le)
  finally show "((h, strip_last P), (h, P)) \<in> measure (\<lambda>(h, P). length P)"
    by (simp add: strip_last_def)
qed

declare existing_ancestor.simps [simp del]

fun make_dirs ::
  "(string list \<rightharpoonup> string \<times> string) \<Rightarrow> string list \<Rightarrow> string list \<Rightarrow> (string list \<rightharpoonup> string \<times> string)" where
  \<comment> \<open>\<^verbatim>\<open>mkdir -p\<close> under \<^verbatim>\<open>sudo\<close>: each missing step is created, owned by root\<close>
  "make_dirs ds cur [] = ds"
| "make_dirs ds cur (w # ws) =
     (let nxt = enter cur w
      in make_dirs (if ds nxt = None then ds(nxt \<mapsto> (''root'', ''root'')) else ds) nxt ws)"

definition chown_tree ::
  "(string list \<rightharpoonup> string \<times> string) \<Rightarrow> string \<times> string \<Rightarrow> string list \<Rightarrow> (string list \<rightharpoonup> string \<times> string)" where
  \<comment> \<open>\<^verbatim>\<open>chown -R\<close>: the directory and everything below it\<close>
  "chown_tree ds og base = (\<lambda>p. if prefix base p then map_option (\<lambda>_. og) (ds p) else ds p)"

subsection \<open>Shell words\<close>

definition ifs :: "char \<Rightarrow> bool" where
  "ifs c = (c = CHR 0x20 \<or> c = CHR 0x09 \<or> c = CHR 0x0A)"

definition shell_fields :: "string \<Rightarrow> string list" where
  \<comment> \<open>field splitting of an unquoted expansion\<close>
  "shell_fields s = filter (\<lambda>w. w \<noteq> []) (split_where ifs s)"

definition chomp :: "string \<Rightarrow> string" where
  \<comment> \<open>command substitution drops the trailing newlines\<close>
  "chomp s = rev (dropWhile (\<lambda>c. c = CHR 0x0A) (rev s))"

definition echo :: "string list \<Rightarrow> string" where
  "echo ws = join_with '' '' ws @ [CHR 0x0A]"

definition echo_prints_all :: "string list \<Rightarrow> bool" where
  \<comment> \<open>no leading word that \<^verbatim>\<open>echo\<close> could take for an option\<close>
  "echo_prints_all ws = (length ws \<le> 1 \<or> hd (hd ws) \<noteq> CHR ''-'')"

definition plain_char :: "char \<Rightarrow> bool" where
  \<comment> \<open>letters, digits, underscore, dot and hyphen: characters no shell context treats specially\<close>
  "plain_char c =
     (let n = (of_char c :: nat)
      in (48 \<le> n \<and> n \<le> 57) \<or> (65 \<le> n \<and> n \<le> 90) \<or> (97 \<le> n \<and> n \<le> 122)
         \<or> c = CHR ''_'' \<or> c = CHR ''.'' \<or> c = CHR ''-'')"

definition plain_text :: "string \<Rightarrow> bool" where
  \<comment> \<open>unquoted text that the shell only splits into words\<close>
  "plain_text s = list_all (\<lambda>c. plain_char c \<or> c = CHR ''/'' \<or> c = CHR '':'' \<or> ifs c) s"

definition dq_literal :: "string \<Rightarrow> bool" where
  \<comment> \<open>text that stands for itself between double quotes\<close>
  \<open>dq_literal s = list_all (\<lambda>c. c \<noteq> CHR 0x22 \<and> c \<noteq> CHR ''$'' \<and> c \<noteq> CHR ''`'' \<and> c \<noteq> CHR 0x5C) s\<close>

definition unterminated_dquote :: "string \<Rightarrow> bool" where
  \<comment> \<open>a one-line script without single quotes, backslashes, backquotes, comments and
      redirections in which the double quotes do not pair up: bash reports a syntax error
      before it runs anything\<close>
  "unterminated_dquote script =
     (odd (length (filter (\<lambda>c. c = CHR 0x22) script))
      \<and> list_all (\<lambda>c. c \<noteq> CHR 0x27 \<and> c \<noteq> CHR 0x5C \<and> c \<noteq> CHR ''`'' \<and> c \<noteq> CHR ''#''
                      \<and> c \<noteq> CHR ''<'' \<and> c \<noteq> CHR 0x0A) script)"

definition strip_prefix :: "string \<Rightarrow> string \<Rightarrow> string option" where
  "strip_prefix p s = (if take (length p) s = p then Some (drop (length p) s) else None)"

definition strip_suffix :: "string \<Rightarrow> string \<Rightarrow> string option" where
  "strip_suffix p s =
     (if length p \<le> length s \<and> drop (length s - length p) s = p
      then Some (take (length s - length p) s) else None)"


subsection \<open>The command lines the mount code sends\<close>

definition find_script :: "string \<Rightarrow> string option" where
  \<comment> \<open>the search script of \<^verbatim>\<open>get_path_split\<close>: the text assigned to \<open>P\<close>\<close>
  \<open>find_script script =
     (case strip_prefix ''P="'' script of
        None \<Rightarrow> None
      | Some r \<Rightarrow> strip_suffix ''"; while [ ! -d "$P/" ]; do P=${P%/*}; done; echo $P/'' r)\<close>

definition cd_script :: "string \<Rightarrow> string \<Rightarrow> (string \<times> string) option" where
  \<comment> \<open>\<^verbatim>\<open>cd "R"\<close> followed by the given text: \<open>R\<close> and what comes after that text\<close>
  \<open>cd_script next script =
     (case strip_prefix ''cd "'' script of
        None \<Rightarrow> None
      | Some r \<Rightarrow>
          (let R = takeWhile (\<lambda>c. c \<noteq> CHR 0x22) r
           in case strip_prefix next (drop (length R) r) of
                None \<Rightarrow> None
              | Some rest \<Rightarrow> Some (R, rest)))\<close>

definition run_find :: "host \<Rightarrow> string \<Rightarrow> host reply" where
  \<comment> \<open>the search script: the loop, then \<^verbatim>\<open>echo $P/\<close> with its unquoted expansion\<close>
  "run_find h A =
     (if \<not> dq_literal A then NotModelled
      else case existing_ancestor h A of
             None \<Rightarrow> Hang
           | Some P \<Rightarrow>
               if plain_text (P @ ''/'') \<and> echo_prints_all (shell_fields (P @ ''/''))
               then Answer (ok (echo (shell_fields (P @ ''/'')))) h
               else NotModelled)"

definition run_mkdir :: "host \<Rightarrow> string \<Rightarrow> string \<Rightarrow> host reply" where
  \<comment> \<open>\<^verbatim>\<open>cd "R" && mkdir -p "T"\<close>\<close>
  "run_mkdir h R T =
     (if \<not> dq_literal R \<or> \<not> dq_literal T \<or> R = [] then NotModelled
      else case resolve_from (directories h) (login_dir h) R of
             None \<Rightarrow> Answer (failed 1 (''cd: '' @ R @ '': No such file or directory'')) h
           | Some base \<Rightarrow>
               if T = [] then Answer (failed 1 ''mkdir: cannot create directory'') h
               else if hd T = CHR ''-'' then NotModelled
               else Answer (ok [])
                      (h\<lparr>directories :=
                           make_dirs (directories h) (if hd T = CHR ''/'' then [] else base)
                             (split_on CHR ''/'' T)\<rparr>))"

definition run_chown :: "host \<Rightarrow> string \<Rightarrow> string \<Rightarrow> host reply" where
  \<comment> \<open>the words after \<^verbatim>\<open>chown -R\<close> are not quoted: the owner, then the operands\<close>
  "run_chown h R rest =
     (if \<not> dq_literal R \<or> R = [] \<or> \<not> plain_text rest then NotModelled
      else case resolve_from (directories h) (login_dir h) R of
             None \<Rightarrow> Answer (failed 1 (''cd: '' @ R @ '': No such file or directory'')) h
           | Some base \<Rightarrow>
               (case shell_fields rest of
                  [] \<Rightarrow> Answer (failed 1 ''chown: missing operand'') h
                | [spec] \<Rightarrow> Answer (failed 1 (''chown: missing operand after '' @ spec)) h
                | spec # operands \<Rightarrow>
                    if spec \<noteq> login_user h @ '':'' @ login_group h
                       \<or> list_ex (\<lambda>w. hd w = CHR ''-'') operands
                    then NotModelled
                    else
                      Answer
                        (if list_all (\<lambda>w. resolve_from (directories h) base w \<noteq> None) operands
                         then ok [] else failed 1 ''chown: cannot access'')
                        (h\<lparr>directories :=
                             foldl (\<lambda>ds w. case resolve_from ds base w of
                                              None \<Rightarrow> ds
                                            | Some p \<Rightarrow> chown_tree ds (login_user h, login_group h) p)
                               (directories h) operands\<rparr>)))"

definition bash :: "host \<Rightarrow> string \<Rightarrow> host reply" where
  \<comment> \<open>\<^verbatim>\<open>sudo /bin/bash -c 'script'\<close>\<close>
  \<open>bash h script =
     (if unterminated_dquote script
      then Answer (failed 2 ''syntax error: unexpected end of file'') h
      else case find_script script of
             Some A \<Rightarrow> run_find h A
           | None \<Rightarrow>
               (case cd_script ''" && mkdir -p "'' script of
                  Some (R, rest) \<Rightarrow>
                    (case strip_suffix [CHR 0x22] rest of
                       None \<Rightarrow> NotModelled
                     | Some T \<Rightarrow> run_mkdir h R T)
                | None \<Rightarrow>
                    (case cd_script ''" && chown -R '' script of
                       Some (R, rest) \<Rightarrow> run_chown h R rest
                     | None \<Rightarrow> NotModelled)))\<close>

definition command :: "host \<Rightarrow> string \<Rightarrow> host reply" where
  \<comment> \<open>one command, as the login shell runs it\<close>
  "command h cmd =
     (if cmd = ''which sshfs'' then
        (case sshfs_binary h of
           None \<Rightarrow> Answer (failed 1 []) h
         | Some b \<Rightarrow> Answer (ok (b @ [CHR 0x0A])) h)
      else if cmd = ''pwd'' then Answer (ok (render (login_dir h) @ [CHR 0x0A])) h
      else if cmd = ''id -nu'' then Answer (ok (login_user h @ [CHR 0x0A])) h
      else if cmd = ''id -ng'' then Answer (ok (login_group h @ [CHR 0x0A])) h
      else if cmd = ''id -u'' then Answer (ok (login_uid h @ [CHR 0x0A])) h
      else if cmd = ''id -g'' then Answer (ok (login_gid h @ [CHR 0x0A])) h
      else case strip_prefix ''getent passwd '' cmd of
             Some r \<Rightarrow>
               (case strip_suffix '' | cut -d : -f 6'' r of
                  None \<Rightarrow> NotModelled
                | Some u \<Rightarrow>
                    if u = [] \<or> \<not> list_all plain_char u then NotModelled
                    else Answer (ok (case passwd_home h u of
                                       None \<Rightarrow> []
                                     | Some d \<Rightarrow> d @ [CHR 0x0A])) h)
           | None \<Rightarrow>
               (case strip_prefix (''sudo /bin/bash -c '' @ [CHR 0x27]) cmd of
                  None \<Rightarrow> NotModelled
                | Some r \<Rightarrow>
                    (case strip_suffix [CHR 0x27] r of
                       None \<Rightarrow> NotModelled
                     | Some script \<Rightarrow>
                         if CHR 0x27 \<in> set script then NotModelled else bash h script)))"

definition posix :: "host \<Rightarrow> string \<Rightarrow> host reply" where
  \<comment> \<open>a command line is either \<^verbatim>\<open>echo `cmd`-\<close>, which prints the words of what \<open>cmd\<close>
      printed, the last one joined with the hyphen, and succeeds whatever \<open>cmd\<close> did, or
      one command\<close>
  "posix h line =
     (case strip_prefix ''echo `'' line of
        None \<Rightarrow> command h line
      | Some r \<Rightarrow>
          (case strip_suffix ''`-'' r of
             None \<Rightarrow> NotModelled
           | Some cmd \<Rightarrow>
               if CHR ''`'' \<in> set cmd \<or> CHR 0x5C \<in> set cmd then NotModelled
               else
                 (case command h cmd of
                    Answer p h1 \<Rightarrow>
                      if plain_text (chomp (std_output p))
                         \<and> echo_prints_all (shell_fields (chomp (std_output p) @ ''-''))
                      then Answer \<lparr>exit_code = 0,
                                   std_output = echo (shell_fields (chomp (std_output p) @ ''-'')),
                                   std_error = std_error p\<rparr> h1
                      else NotModelled
                  | Hang \<Rightarrow> Hang
                  | NotModelled \<Rightarrow> NotModelled)))"


section \<open>The mount handle\<close>

text \<open>
  An \<^verbatim>\<open>SshfsMount\<close> owns the server made by \<^verbatim>\<open>make_sftp_server\<close> and one
  \<^verbatim>\<open>std::thread\<close>, started by the constructor, whose function prints "Connected", calls
  \<^verbatim>\<open>sftp_server->run()\<close> and prints "Stopped". The handle below records what the two
  threads share: whether the server was asked to stop, whether the thread function is still
  serving, and whether the thread object is joinable; \<open>threads_started\<close> counts the threads
  the handle ever started.
\<close>

datatype worker = Serving | Finished

record sshfs_mount =
  server :: sftp_server
  stop_invoked :: bool
  worker :: worker
  joinable :: bool
  threads_started :: nat
  console :: "string list"

definition SshfsMount ::
  "string \<Rightarrow> string \<Rightarrow> (int \<rightharpoonup> int) \<Rightarrow> (int \<rightharpoonup> int) \<Rightarrow> (sshfs_mount, 'h) action" where
  \<comment> \<open>the constructor: no handle and no thread when the preparation throws\<close>
  "SshfsMount source target gid_map uid_map =
     and_then (make_sftp_server source target gid_map uid_map) (\<lambda>srv.
       returns \<lparr>server = srv, stop_invoked = False, worker = Serving, joinable = True,
                threads_started = 1, console = [''Connected'']\<rparr>)"

definition server_stop :: "sshfs_mount \<Rightarrow> sshfs_mount" where
  \<comment> \<open>Modelled from the spec: \<^verbatim>\<open>SftpServer::stop\<close> (the class is not part of sshfs_mount.cpp):
      "request termination, safe to call once or more".\<close>
  "server_stop m = m\<lparr>stop_invoked := True\<rparr>"

definition thread_join :: "sshfs_mount \<Rightarrow> error + sshfs_mount" where
  \<comment> \<open>\<^verbatim>\<open>std::thread::join\<close>: an error on a thread that is not joinable, otherwise it waits
      for the thread function to return.
      Modelled from the spec: \<^verbatim>\<open>SftpServer::run\<close>, "the blocking serve loop", returns once
      termination was requested and not before (unless it had already returned).\<close>
  "thread_join m =
     (if \<not> joinable m then Inl SystemError
      else if worker m = Finished then Inr (m\<lparr>joinable := False\<rparr>)
      else if stop_invoked m
      then Inr (m\<lparr>worker := Finished, joinable := False, console := console m @ [''Stopped'']\<rparr>)
      else Inl NeverReturns)"

definition stop :: "sshfs_mount \<Rightarrow> error + sshfs_mount" where
  "stop m = (let m1 = server_stop m in if joinable m1 then thread_join m1 else Inr m1)"

definition destroy :: "sshfs_mount \<Rightarrow> error + sshfs_mount" where
  \<comment> \<open>the destructor\<close>
  "destroy m = stop m"


section \<open>Plain paths and an example host\<close>

definition plain_name :: "string \<Rightarrow> bool" where
  \<comment> \<open>a path segment that names an entry and that no shell context rewrites\<close>
  "plain_name n =
     (n \<noteq> [] \<and> list_all plain_char n \<and> n \<noteq> ''.'' \<and> n \<noteq> ''..'' \<and> hd n \<noteq> CHR ''-'')"

definition abs_string :: "string list \<Rightarrow> string" where
  \<comment> \<open>every segment after a slash\<close>
  "abs_string comps = concat (map ((#) CHR ''/'') comps)"

definition path_text :: "string \<Rightarrow> bool" where
  \<comment> \<open>plain characters and slashes only\<close>
  "path_text s = list_all (\<lambda>c. plain_char c \<or> c = CHR ''/'') s"

definition all_exist :: "(string list \<rightharpoonup> 'o) \<Rightarrow> string list \<Rightarrow> bool" where
  \<comment> \<open>the directory and each of its ancestors exist\<close>
  "all_exist ds comps = list_all (\<lambda>p. ds p \<noteq> None) (prefixes comps)"

definition vm :: host where
  "vm = \<lparr>directories = [[] \<mapsto> (''root'', ''root''),
                         [''r''] \<mapsto> (''root'', ''root''),
                         [''home''] \<mapsto> (''root'', ''root''),
                         [''home'', ''ubuntu''] \<mapsto> (''ubuntu'', ''ubuntu'')],
         login_dir = [''home'', ''ubuntu''],
         login_user = ''ubuntu'', login_group = ''ubuntu'',
         login_uid = ''1000'', login_gid = ''1000'',
         passwd_home = [''ubuntu'' \<mapsto> ''/home/ubuntu''],
         sshfs_binary = Some ''/usr/bin/sshfs''\<rparr>"


section \<open>Facts about the runners\<close>

lemma exec_answer:
  "transport s (remote s) cmd = Answer p h \<Longrightarrow>
   exec cmd s = (Inr p, s\<lparr>remote := h, sent := sent s @ [cmd]\<rparr>)"
  by (simp add: exec_def)

lemma run_cmd_ok:
  "transport s (remote s) cmd = Answer p h \<Longrightarrow> exit_code p = 0 \<Longrightarrow>
   run_cmd cmd s = (Inr (std_output p), s\<lparr>remote := h, sent := sent s @ [cmd]\<rparr>)"
  by (simp add: run_cmd_def run_cmd_with_def and_then_def exec_answer returns_def)

lemma run_cmd_fail:
  "transport s (remote s) cmd = Answer p h \<Longrightarrow> exit_code p \<noteq> 0 \<Longrightarrow>
   run_cmd cmd s = (Inl (RuntimeError (std_error p)), s\<lparr>remote := h, sent := sent s @ [cmd]\<rparr>)"
  by (simp add: run_cmd_def run_cmd_with_def and_then_def exec_answer throws_def)

lemma run_string_cmd_ok:
  "transport s (remote s) (''echo `'' @ cmd @ ''`-'') = Answer p h \<Longrightarrow> exit_code p = 0 \<Longrightarrow>
   run_string_cmd cmd s =
     (Inr (butlast (trim_end (std_output p))),
      s\<lparr>remote := h, sent := sent s @ [''echo `'' @ cmd @ ''`-'']\<rparr>)"
  by (simp add: run_string_cmd_def and_then_def run_cmd_ok returns_def pop_back_def Let_def)

lemma trim_end_sentinel: "trim_end (out @ ''-'' @ [CHR 0x0A]) = out @ ''-''"
  by (simp add: trim_end_def isspace_def)

lemma scripted_hit:
  "map_of tbl cmd = Some p \<Longrightarrow>
   transport (fresh (scripted tbl) ()) (remote (fresh (scripted tbl) ())) cmd = Answer p ()"
  by (simp add: fresh_def scripted_def)


section \<open>Facts about the string operations\<close>

lemma index_from_absent: "c \<notin> set u \<Longrightarrow> index_from c u i = None"
  by (induction u arbitrary: i) auto

lemma index_from_first: "c \<notin> set u \<Longrightarrow> index_from c (u @ c # r) i = Some (i + length u)"
  by (induction u arbitrary: i) auto

lemma find_char_after_tilde:
  "CHR ''/'' \<notin> set u \<Longrightarrow> find_char (CHR ''~'' # u @ CHR ''/'' # r) CHR ''/'' (Suc 0) = Suc (length u)"
  by (simp add: find_char_def index_from_first)

lemma find_char_no_slash:
  "CHR ''/'' \<notin> set u \<Longrightarrow> find_char (CHR ''~'' # u) CHR ''/'' (Suc 0) = npos"
  by (simp add: find_char_def index_from_absent)

lemma find_first_slash:
  "CHR ''/'' \<notin> set a \<Longrightarrow> find_char (a @ CHR ''/'' # r) CHR ''/'' 0 = length a"
  by (simp add: find_char_def index_from_first)

lemma find_first_none:
  "CHR ''/'' \<notin> set a \<Longrightarrow> find_char a CHR ''/'' 0 = npos"
  by (simp add: find_char_def index_from_absent)


section \<open>The trimmed-output runner\<close>

text \<open>
  C4 (as the code has it). When the raw capture is \<^verbatim>\<open>"value  -"\<close> (the value, two spaces,
  the sentinel, nothing after it), the runner returns \<^verbatim>\<open>"value  "\<close>: the sentinel is
  removed and the two spaces in front of it are kept.
\<close>

theorem run_string_cmd_keeps_spaces_before_sentinel:
  assumes "transport s (remote s) (''echo `'' @ cmd @ ''`-'') = Answer p h"
    and "exit_code p = 0"
    and "std_output p = ''value  -''"
  shows "fst (run_string_cmd cmd s) = Inr ''value  ''"
  using assms by (simp add: run_string_cmd_ok trim_end_def isspace_def)

theorem run_string_cmd_keeps_spaces_before_sentinel_witness:
  "fst (run_string_cmd ''cat f'' (fresh (scripted [(''echo `cat f`-'', ok ''value  -'')]) ()))
     = Inr ''value  ''"
  by (rule run_string_cmd_keeps_spaces_before_sentinel [where p = "ok ''value  -''" and h = "()"])
     (simp_all add: fresh_def scripted_def ok_def)

text \<open>
  C4 (as the spec states it) fails: on that capture the result is not \<^verbatim>\<open>"value"\<close>.
\<close>

theorem run_string_cmd_value_counterexample:
  "fst (run_string_cmd ''cat f'' (fresh (scripted [(''echo `cat f`-'', ok ''value  -'')]) ()))
     \<noteq> Inr ''value''"
  by (simp add: run_string_cmd_def run_cmd_def run_cmd_with_def and_then_def exec_def returns_def
      fresh_def scripted_def ok_def trim_end_def isspace_def pop_back_def)

text \<open>
  C5. The last character of a non-empty whitespace-stripped capture is removed whatever it
  is: the capture \<^verbatim>\<open>"abc"\<close>, which does not end in the sentinel, comes back as \<^verbatim>\<open>"ab"\<close>.
\<close>

theorem run_string_cmd_drops_non_sentinel:
  "fst (run_string_cmd ''cat f'' (fresh (scripted [(''echo `cat f`-'', ok ''abc'')]) ())) = Inr ''ab''"
  by (simp add: run_string_cmd_def run_cmd_def run_cmd_with_def and_then_def exec_def returns_def
      fresh_def scripted_def ok_def trim_end_def isspace_def pop_back_def)


section \<open>Home-directory expansion\<close>

text \<open>
  C7. For a target \<^verbatim>\<open>~user/rest\<close> (here \<open>u\<close> is the user name, non-empty and without a
  slash) the expansion asks the remote password database for the home directory of \<open>u\<close>
  through the trimmed-output runner. If the answer \<open>home\<close> is empty the expansion fails with
  the runtime error "user \<open>u\<close> does not exist or does not have a home defined"; otherwise it
  returns \<open>home\<close> followed by the slash and the rest of the target.
\<close>

theorem expand_home_directory_of_user:
  assumes "u \<noteq> []" and "CHR ''/'' \<notin> set u"
    and "run_string_cmd (''getent passwd '' @ u @ '' | cut -d : -f 6'') s = (Inr home, s1)"
  shows "expand_home_directory (''~'' @ u @ ''/'' @ r) s =
           (if home = []
            then (Inl (RuntimeError (''user '' @ u @ '' does not exist or does not have a home defined'')), s1)
            else (Inr (home @ ''/'' @ r), s1))"
  using assms
  by (simp add: expand_home_directory_def char_at_def find_char_after_tilde substr_def
      and_then_def lift_def throws_def returns_def Let_def)

theorem expand_home_directory_of_user_witness:
  "expand_home_directory ''~alice/data''
     (fresh (scripted [(''echo `getent passwd alice | cut -d : -f 6`-'',
                        ok (''/home/alice-'' @ [CHR 0x0A]))]) ())
     = (Inr ''/home/alice/data'',
        (fresh (scripted [(''echo `getent passwd alice | cut -d : -f 6`-'',
                           ok (''/home/alice-'' @ [CHR 0x0A]))]) ())
          \<lparr>sent := [''echo `getent passwd alice | cut -d : -f 6`-'']\<rparr>)
   \<and> fst (expand_home_directory ''~alice/data''
          (fresh (scripted [(''echo `getent passwd alice | cut -d : -f 6`-'',
                             ok (''-'' @ [CHR 0x0A]))]) ()))
     = Inl (RuntimeError ''user alice does not exist or does not have a home defined'')"
proof -
  let ?q = "''getent passwd '' @ ''alice'' @ '' | cut -d : -f 6''"
  let ?s = "fresh (scripted [(''echo `getent passwd alice | cut -d : -f 6`-'',
                              ok (''/home/alice-'' @ [CHR 0x0A]))]) ()"
  let ?t = "fresh (scripted [(''echo `getent passwd alice | cut -d : -f 6`-'',
                              ok (''-'' @ [CHR 0x0A]))]) ()"
  have a: "run_string_cmd ?q ?s = (Inr ''/home/alice'', ?s\<lparr>sent := [''echo `getent passwd alice | cut -d : -f 6`-'']\<rparr>)"
    by (simp add: run_string_cmd_def run_cmd_def run_cmd_with_def and_then_def exec_def returns_def
        fresh_def scripted_def ok_def trim_end_def isspace_def pop_back_def)
  have b: "run_string_cmd ?q ?t = (Inr [], ?t\<lparr>sent := [''echo `getent passwd alice | cut -d : -f 6`-'']\<rparr>)"
    by (simp add: run_string_cmd_def run_cmd_def run_cmd_with_def and_then_def exec_def returns_def
        fresh_def scripted_def ok_def trim_end_def isspace_def pop_back_def)
  show ?thesis
    using expand_home_directory_of_user [OF _ _ a, of "''data''"]
          expand_home_directory_of_user [OF _ _ b, of "''data''"]
    by simp
qed

text \<open>
  C10. For a target \<^verbatim>\<open>~user\<close> without any slash, whose home lookup succeeds with a
  non-empty answer, the expansion does not return: the slash search yields \<open>npos\<close>, and the
  final \<^verbatim>\<open>substr\<close> at that position throws \<^verbatim>\<open>std::out_of_range\<close>.
\<close>

theorem expand_home_directory_without_slash:
  assumes "u \<noteq> []" and "CHR ''/'' \<notin> set u" and "Suc (length u) < npos"
    and "run_string_cmd (''getent passwd '' @ u @ '' | cut -d : -f 6'') s = (Inr home, s1)"
    and "home \<noteq> []"
  shows "expand_home_directory (''~'' @ u) s = (Inl OutOfRange, s1)"
proof -
  have pos: "find_char (CHR ''~'' # u) CHR ''/'' (Suc 0) = npos"
    using assms(2) by (rule find_char_no_slash)
  have "npos \<noteq> 1" by (simp add: npos_def)
  moreover have "take (npos - 1) u = u" using assms(3) by simp
  ultimately show ?thesis
    using assms pos
    by (simp add: expand_home_directory_def char_at_def substr_def
        and_then_def lift_def throws_def returns_def Let_def)
qed

theorem expand_home_directory_without_slash_witness:
  "expand_home_directory ''~alice''
     (fresh (scripted [(''echo `getent passwd alice | cut -d : -f 6`-'',
                        ok (''/home/alice-'' @ [CHR 0x0A]))]) ())
     = (Inl OutOfRange,
        (fresh (scripted [(''echo `getent passwd alice | cut -d : -f 6`-'',
                           ok (''/home/alice-'' @ [CHR 0x0A]))]) ())
          \<lparr>sent := [''echo `getent passwd alice | cut -d : -f 6`-'']\<rparr>)"
proof -
  let ?q = "''getent passwd '' @ ''alice'' @ '' | cut -d : -f 6''"
  let ?s = "fresh (scripted [(''echo `getent passwd alice | cut -d : -f 6`-'',
                              ok (''/home/alice-'' @ [CHR 0x0A]))]) ()"
  have a: "run_string_cmd ?q ?s = (Inr ''/home/alice'', ?s\<lparr>sent := [''echo `getent passwd alice | cut -d : -f 6`-'']\<rparr>)"
    by (simp add: run_string_cmd_def run_cmd_def run_cmd_with_def and_then_def exec_def returns_def
        fresh_def scripted_def ok_def trim_end_def isspace_def pop_back_def)
  have "Suc (length ''alice'') < npos" by (simp add: npos_def)
  from expand_home_directory_without_slash [OF _ _ this a] show ?thesis by simp
qed


section \<open>The probe for sshfs\<close>

text \<open>
  C8. When \<^verbatim>\<open>which sshfs\<close> exits with a non-zero status, the preparation stops there with
  \<open>SSHFSMissingError\<close>, after one warning that carries the standard error of the probe; it
  is not the runtime error that \<^verbatim>\<open>run_cmd\<close> throws for the same process.
\<close>

theorem make_sftp_server_sshfs_missing:
  assumes "transport s (remote s) ''which sshfs'' = Answer p h"
    and "exit_code p \<noteq> 0"
  shows "make_sftp_server source target gid_map uid_map s =
           (Inl SSHFSMissingError,
            s\<lparr>remote := h, sent := sent s @ [''which sshfs''],
              logged := logged s @
                [(Debug, category,
                  location (source_file s) ''171'' @ ''(source = '' @ source @ '', target = '' @ target
                    @ '', '' @ [CHR 0xE2, CHR 0x80, CHR 0xA6] @ ''): ''),
                 (Warning, category,
                  ''Unable to determine if 'sshfs' is installed: '' @ std_error p)]\<rparr>)
         \<and> fst (run_cmd ''which sshfs'' s) = Inl (RuntimeError (std_error p))
         \<and> fst (make_sftp_server source target gid_map uid_map s) \<noteq> Inl (RuntimeError (std_error p))"
proof -
  have a: "make_sftp_server source target gid_map uid_map s =
           (Inl SSHFSMissingError,
            s\<lparr>remote := h, sent := sent s @ [''which sshfs''],
              logged := logged s @
                [(Debug, category,
                  location (source_file s) ''171'' @ ''(source = '' @ source @ '', target = '' @ target
                    @ '', '' @ [CHR 0xE2, CHR 0x80, CHR 0xA6] @ ''): ''),
                 (Warning, category,
                  ''Unable to determine if 'sshfs' is installed: '' @ std_error p)]\<rparr>)"
    using assms
    by (simp add: make_sftp_server_def check_sshfs_exists_def run_cmd_with_def and_then_def
        exec_def log_def throws_def)
  have b: "fst (run_cmd ''which sshfs'' s) = Inl (RuntimeError (std_error p))"
    using assms by (simp add: run_cmd_fail)
  show ?thesis by (simp add: a b)
qed

theorem make_sftp_server_sshfs_missing_witness:
  "fst (make_sftp_server ''/src'' ''/target'' Map.empty Map.empty
         (fresh (scripted [(''which sshfs'', failed 1 ''which: no sshfs'')]) ()))
     = Inl SSHFSMissingError
   \<and> logged (snd (make_sftp_server ''/src'' ''/target'' Map.empty Map.empty
         (fresh (scripted [(''which sshfs'', failed 1 ''which: no sshfs'')]) ()))) ! 1
     = (Warning, ''sshfs mount'', ''Unable to determine if 'sshfs' is installed: which: no sshfs'')"
proof -
  let ?s = "fresh (scripted [(''which sshfs'', failed 1 ''which: no sshfs'')]) ()"
  have t: "transport ?s (remote ?s) ''which sshfs'' = Answer (failed 1 ''which: no sshfs'') ()"
    by (simp add: fresh_def scripted_def)
  have e: "exit_code (failed 1 ''which: no sshfs'') \<noteq> 0" by (simp add: failed_def)
  show ?thesis
    using make_sftp_server_sshfs_missing [OF t e, of "''/src''" "''/target''" Map.empty Map.empty]
    by (simp add: failed_def category_def fresh_def)
qed


section \<open>Facts about plain names\<close>

lemma plain_char_not_slash: "plain_char c \<Longrightarrow> c \<noteq> CHR ''/''"
  by (auto simp: plain_char_def Let_def)

lemma plain_char_not_ifs: "plain_char c \<Longrightarrow> \<not> ifs c"
  by (auto simp: plain_char_def Let_def ifs_def)

lemma plain_char_not_quote:
  "plain_char c \<Longrightarrow> c \<noteq> CHR 0x22 \<and> c \<noteq> CHR 0x27 \<and> c \<noteq> CHR ''`'' \<and> c \<noteq> CHR 0x5C
     \<and> c \<noteq> CHR ''$'' \<and> c \<noteq> CHR 0x0A \<and> c \<noteq> CHR ''#'' \<and> c \<noteq> CHR ''<'' \<and> c \<noteq> CHR '':''"
  by (auto simp: plain_char_def Let_def)

lemma plain_name_no_slash: "plain_name n \<Longrightarrow> CHR ''/'' \<notin> set n"
  by (auto simp: plain_name_def list_all_iff dest: plain_char_not_slash)

lemma plain_name_enter: "plain_name n \<Longrightarrow> enter cur n = cur @ [n]"
  by (simp add: enter_def plain_name_def)

lemma abs_string_Nil: "abs_string [] = []"
  by (simp add: abs_string_def)

lemma abs_string_Cons: "abs_string (n # ns) = CHR ''/'' # n @ abs_string ns"
  by (simp add: abs_string_def)

lemma abs_string_append: "abs_string (xs @ ys) = abs_string xs @ abs_string ys"
  by (simp add: abs_string_def)

lemma abs_string_eq_Nil: "abs_string comps = [] \<longleftrightarrow> comps = []"
  by (cases comps) (simp_all add: abs_string_Nil abs_string_Cons)

lemma render_abs: "comps \<noteq> [] \<Longrightarrow> render comps = abs_string comps"
  by (simp add: render_def abs_string_def)

section \<open>Splitting at separators\<close>

lemma split_where_none: "\<forall>x\<in>set w. \<not> P x \<Longrightarrow> split_where P w = [w]"
  by (induction w) simp_all

lemma split_where_first:
  "\<forall>x\<in>set w. \<not> P x \<Longrightarrow> P c \<Longrightarrow> split_where P (w @ c # r) = w # split_where P r"
  by (induction w) simp_all

lemma split_on_name_abs:
  "CHR ''/'' \<notin> set n \<Longrightarrow> \<forall>m\<in>set ns. CHR ''/'' \<notin> set m \<Longrightarrow>
   split_on CHR ''/'' (n @ abs_string ns) = n # ns"
proof (induction ns arbitrary: n)
  case Nil
  then have "split_where (\<lambda>x. x = CHR ''/'') n = [n]" by (intro split_where_none) auto
  then show ?case by (simp add: abs_string_Nil split_on_def)
next
  case (Cons m ms)
  have "split_where (\<lambda>x. x = CHR ''/'') (n @ CHR ''/'' # m @ abs_string ms)
          = n # split_where (\<lambda>x. x = CHR ''/'') (m @ abs_string ms)"
    using Cons.prems(1) by (intro split_where_first) auto
  moreover have "split_on CHR ''/'' (m @ abs_string ms) = m # ms"
    using Cons.prems(2) by (intro Cons.IH) simp_all
  ultimately show ?case by (simp add: abs_string_Cons split_on_def)
qed

lemma split_on_slash_free:
  "\<forall>m\<in>set comps. CHR ''/'' \<notin> set m \<Longrightarrow> split_on CHR ''/'' (abs_string comps) = [] # comps"
  using split_on_name_abs [of "[]" comps] by simp

lemma split_on_abs:
  "list_all plain_name comps \<Longrightarrow> split_on CHR ''/'' (abs_string comps) = [] # comps"
  by (rule split_on_slash_free) (simp add: list_all_iff plain_name_no_slash)

lemma split_where_nonempty: "split_where P s \<noteq> []"
  by (induction s) (auto split: list.splits)

lemma split_where_last: "P c \<Longrightarrow> split_where P (s @ [c]) = split_where P s @ [[]]"
proof (induction s)
  case Nil
  then show ?case by simp
next
  case (Cons x xs)
  then show ?case
    using split_where_nonempty [of P xs] by (cases "split_where P xs") auto
qed

lemma split_on_abs_slash:
  "list_all plain_name comps \<Longrightarrow>
   split_on CHR ''/'' (abs_string comps @ ''/'') = [] # comps @ [[]]"
  using split_on_abs [of comps] by (simp add: split_on_def split_where_last)

lemma segments_abs:
  "list_all plain_name comps \<Longrightarrow> segments (abs_string comps) = comps"
proof -
  assume a: "list_all plain_name comps"
  then have "filter (\<lambda>w. w \<noteq> []) comps = comps"
    by (auto simp: list_all_iff plain_name_def intro: filter_True)
  with a show ?thesis by (simp add: segments_def split_on_abs)
qed

section \<open>Walking the directory tree\<close>

lemma walk_names:
  "list_all plain_name ws \<Longrightarrow>
   walk ds cur ws = (if \<forall>k\<le>length ws. ds (cur @ take k ws) \<noteq> None then Some (cur @ ws) else None)"
proof (induction ws arbitrary: cur)
  case Nil
  then show ?case by simp
next
  case (Cons w ws)
  have "(\<forall>k\<le>length (w # ws). ds (cur @ take k (w # ws)) \<noteq> None)
          \<longleftrightarrow> ds cur \<noteq> None \<and> (\<forall>k\<le>length ws. ds ((cur @ [w]) @ take k ws) \<noteq> None)"
    (is "?L \<longleftrightarrow> ?R")
  proof
    assume l: ?L
    have "ds cur \<noteq> None" using l [rule_format, of 0] by simp
    moreover have "\<forall>k\<le>length ws. ds ((cur @ [w]) @ take k ws) \<noteq> None"
    proof (intro allI impI)
      fix k assume "k \<le> length ws"
      then show "ds ((cur @ [w]) @ take k ws) \<noteq> None"
        using l [rule_format, of "Suc k"] by simp
    qed
    ultimately show ?R by simp
  next
    assume r: ?R
    show ?L
    proof (intro allI impI)
      fix k assume k: "k \<le> length (w # ws)"
      show "ds (cur @ take k (w # ws)) \<noteq> None"
      proof (cases k)
        case 0
        then show ?thesis using r by simp
      next
        case (Suc j)
        then show ?thesis using r k by simp
      qed
    qed
  qed
  then show ?case using Cons by (simp add: plain_name_enter)
qed


lemma all_exist_iff: "all_exist ds comps \<longleftrightarrow> (\<forall>k\<le>length comps. ds (take k comps) \<noteq> None)"
proof
  assume a: "all_exist ds comps"
  show "\<forall>k\<le>length comps. ds (take k comps) \<noteq> None"
  proof (intro allI impI)
    fix k
    have "take k comps \<in> set (prefixes comps)"
      by (simp add: in_set_prefixes take_is_prefix)
    then show "ds (take k comps) \<noteq> None"
      using a by (auto simp: all_exist_def list_all_iff)
  qed
next
  assume a: "\<forall>k\<le>length comps. ds (take k comps) \<noteq> None"
  have "ds p \<noteq> None" if "p \<in> set (prefixes comps)" for p
  proof -
    from that have pr: "prefix p comps" by (simp add: in_set_prefixes)
    then obtain r where "comps = p @ r" by (auto simp: prefix_def)
    then have "p = take (length p) comps" and "length p \<le> length comps" by simp_all
    then show ?thesis using a by metis
  qed
  then show "all_exist ds comps" by (simp add: all_exist_def list_all_iff)
qed

lemma all_exist_Nil: "all_exist ds [] \<longleftrightarrow> ds [] \<noteq> None"
  by (simp add: all_exist_def)

lemma all_exist_snoc:
  "all_exist ds (comps @ [n]) \<longleftrightarrow> all_exist ds comps \<and> ds (comps @ [n]) \<noteq> None"
  by (auto simp: all_exist_def)

lemma all_exist_append: "all_exist ds (xs @ ys) \<Longrightarrow> all_exist ds xs"
  by (induction ys rule: rev_induct) (simp_all add: all_exist_snoc flip: append_assoc)

lemma test_d_abs:
  assumes "list_all plain_name comps"
  shows "test_d h (abs_string comps @ ''/'') \<longleftrightarrow> all_exist (directories h) comps"
proof -
  have s: "split_on CHR ''/'' (abs_string comps @ ''/'') = [] # comps @ [[]]"
    using assms by (rule split_on_abs_slash)
  have hd: "hd (abs_string comps @ ''/'') = CHR ''/''"
    by (cases comps) (simp_all add: abs_string_Nil abs_string_Cons)
  have w: "walk (directories h) [] ([] # comps @ [[]])
             = (if directories h [] = None then None else walk (directories h) [] (comps @ [[]]))"
    by (simp add: enter_def)
  have w2: "walk ds cur (ws @ [[]]) = walk ds cur ws" if "list_all plain_name ws" for ds :: "string list \<rightharpoonup> string \<times> string" and cur ws
    using that by (induction ws arbitrary: cur) (simp_all add: enter_def)
  have "test_d h (abs_string comps @ ''/'')
          \<longleftrightarrow> directories h [] \<noteq> None \<and> walk (directories h) [] comps \<noteq> None"
    using assms by (simp add: test_d_def resolve_from_def hd s w2 enter_def)
  also have "\<dots> \<longleftrightarrow> (\<forall>k\<le>length comps. directories h (take k comps) \<noteq> None)"
    using assms by (auto simp: walk_names)
  finally show ?thesis by (simp add: all_exist_iff)
qed

section \<open>The search for the existing ancestor\<close>

lemma strip_last_abs:
  "CHR ''/'' \<notin> set n \<Longrightarrow> strip_last (abs_string (comps @ [n])) = abs_string comps"
proof -
  assume a: "CHR ''/'' \<notin> set n"
  have "rev (abs_string (comps @ [n])) = rev n @ CHR ''/'' # rev (abs_string comps)"
    by (simp add: abs_string_append abs_string_Cons abs_string_Nil)
  moreover have "dropWhile (\<lambda>c. c \<noteq> CHR ''/'') (rev n @ CHR ''/'' # rev (abs_string comps))
                   = CHR ''/'' # rev (abs_string comps)"
    using a by (subst dropWhile_append2) auto
  ultimately show ?thesis by (simp add: strip_last_def)
qed

lemma slash_in_abs: "comps \<noteq> [] \<Longrightarrow> CHR ''/'' \<in> set (abs_string comps)"
  by (cases comps) (simp_all add: abs_string_Cons)

lemma existing_ancestor_all:
  "list_all plain_name comps \<Longrightarrow> all_exist (directories h) comps \<Longrightarrow>
   existing_ancestor h (abs_string comps) = Some (abs_string comps)"
  by (subst existing_ancestor.simps) (simp add: test_d_abs)

lemma existing_ancestor_missing:
  assumes "list_all plain_name (pre @ a # rest)"
    and "all_exist (directories h) pre"
    and "directories h (pre @ [a]) = None"
  shows "existing_ancestor h (abs_string (pre @ a # rest)) = Some (abs_string pre)"
  using assms(1)
proof (induction rest rule: rev_induct)
  case Nil
  have "\<not> all_exist (directories h) (pre @ [a])"
    using assms(3) by (simp add: all_exist_snoc)
  then have "\<not> test_d h (abs_string (pre @ [a]) @ ''/'')"
    using Nil by (simp add: test_d_abs)
  moreover have "strip_last (abs_string (pre @ [a])) = abs_string pre"
    using Nil by (intro strip_last_abs) (simp add: plain_name_no_slash)
  moreover have "existing_ancestor h (abs_string pre) = Some (abs_string pre)"
    using Nil assms(2) by (intro existing_ancestor_all) simp_all
  ultimately show ?case
    by (subst existing_ancestor.simps) (simp add: slash_in_abs)
next
  case (snoc x xs)
  have "\<not> all_exist (directories h) (pre @ [a])"
    using assms(3) by (simp add: all_exist_snoc)
  then have "\<not> all_exist (directories h) ((pre @ [a]) @ xs @ [x])"
    using all_exist_append by blast
  then have "\<not> test_d h (abs_string (pre @ a # xs @ [x]) @ ''/'')"
    using snoc.prems by (simp add: test_d_abs)
  moreover have "strip_last (abs_string ((pre @ a # xs) @ [x])) = abs_string (pre @ a # xs)"
    using snoc.prems by (intro strip_last_abs) (simp add: plain_name_no_slash)
  moreover have "existing_ancestor h (abs_string (pre @ a # xs)) = Some (abs_string pre)"
    using snoc by simp
  ultimately show ?case
    by (subst existing_ancestor.simps) (simp add: slash_in_abs)
qed


section \<open>Recognising the command lines\<close>


lemma path_text_append: "path_text (a @ b) \<longleftrightarrow> path_text a \<and> path_text b"
  by (simp add: path_text_def)

lemma path_text_name: "plain_name n \<Longrightarrow> path_text n"
  by (simp add: path_text_def plain_name_def list_all_iff)

lemma path_text_abs: "list_all plain_name comps \<Longrightarrow> path_text (abs_string comps)"
proof (induction comps)
  case Nil
  then show ?case by (simp add: abs_string_Nil path_text_def)
next
  case (Cons a comps)
  have "path_text ''/''" by (simp add: path_text_def)
  then have "path_text (''/'' @ a @ abs_string comps)"
    using Cons unfolding path_text_append by (simp add: path_text_name)
  then show ?case by (simp add: abs_string_Cons)
qed

lemma path_text_notin:
  "path_text s \<Longrightarrow> \<not> plain_char c \<Longrightarrow> c \<noteq> CHR ''/'' \<Longrightarrow> c \<notin> set s"
  by (auto simp: path_text_def list_all_iff)

lemma not_plain_chars:
  "\<not> plain_char CHR 0x22" "\<not> plain_char CHR 0x27" "\<not> plain_char CHR ''`''"
  "\<not> plain_char CHR 0x5C" "\<not> plain_char CHR 0x0A" "\<not> plain_char CHR ''$''"
  "\<not> plain_char CHR '' ''" "\<not> plain_char CHR '':''"
  by (simp_all add: plain_char_def)

lemma path_text_chars:
  assumes "path_text s"
  shows "CHR 0x22 \<notin> set s" and "CHR 0x27 \<notin> set s" and "CHR ''`'' \<notin> set s"
    and "CHR 0x5C \<notin> set s" and "CHR 0x0A \<notin> set s" and "CHR ''$'' \<notin> set s"
  using assms by (simp_all add: path_text_notin not_plain_chars)

lemma path_text_no_ifs: "path_text s \<Longrightarrow> c \<in> set s \<Longrightarrow> \<not> ifs c"
  using plain_char_not_ifs by (auto simp: path_text_def list_all_iff ifs_def)

lemma path_text_dq_literal: "path_text s \<Longrightarrow> dq_literal s"
  unfolding dq_literal_def list_all_iff
  using path_text_chars [of s] by metis

lemma path_text_plain_text: "path_text s \<Longrightarrow> plain_text s"
  by (auto simp: path_text_def plain_text_def list_all_iff)

lemma strip_prefix_append: "strip_prefix p (p @ x) = Some x"
  by (simp add: strip_prefix_def)

lemma strip_suffix_append: "strip_suffix p (x @ p) = Some x"
  by (simp add: strip_suffix_def)

lemma strip_prefix_differs: "p \<noteq> [] \<Longrightarrow> s \<noteq> [] \<Longrightarrow> hd p \<noteq> hd s \<Longrightarrow> strip_prefix p s = None"
  by (cases p; cases s) (auto simp: strip_prefix_def)

lemma posix_wrapped:
  assumes "CHR ''`'' \<notin> set cmd" and "CHR 0x5C \<notin> set cmd"
  shows "posix h (''echo `'' @ cmd @ ''`-'') =
           (case command h cmd of
              Answer p h1 \<Rightarrow>
                if plain_text (chomp (std_output p))
                   \<and> echo_prints_all (shell_fields (chomp (std_output p) @ ''-''))
                then Answer \<lparr>exit_code = 0,
                             std_output = echo (shell_fields (chomp (std_output p) @ ''-'')),
                             std_error = std_error p\<rparr> h1
                else NotModelled
            | Hang \<Rightarrow> Hang
            | NotModelled \<Rightarrow> NotModelled)"
  using assms strip_prefix_append [of "''echo `''" "cmd @ ''`-''"] strip_suffix_append [of "''`-''" cmd]
  by (simp add: posix_def)

lemma posix_sudo:
  "posix h (''sudo /bin/bash -c '' @ x) = command h (''sudo /bin/bash -c '' @ x)"
  by (simp add: posix_def strip_prefix_def)


lemma command_sudo:
  assumes "CHR 0x27 \<notin> set script"
  shows "command h (''sudo /bin/bash -c '' @ [CHR 0x27] @ script @ [CHR 0x27]) = bash h script"
proof -
  have a: "strip_prefix ''getent passwd '' (''sudo /bin/bash -c '' @ [CHR 0x27] @ script @ [CHR 0x27]) = None"
    by (rule strip_prefix_differs) simp_all
  have b: "strip_prefix (''sudo /bin/bash -c '' @ [CHR 0x27]) ((''sudo /bin/bash -c '' @ [CHR 0x27]) @ script @ [CHR 0x27])
             = Some (script @ [CHR 0x27])"
    by (rule strip_prefix_append)
  have c: "strip_suffix [CHR 0x27] (script @ [CHR 0x27]) = Some script"
    by (rule strip_suffix_append)
  show ?thesis
    using assms a b c by (simp add: command_def)
qed


lemma find_existing_cmd_shape:
  \<open>find_existing_cmd A =
     ''sudo /bin/bash -c '' @ [CHR 0x27]
       @ (''P="'' @ A @ ''"; while [ ! -d "$P/" ]; do P=${P%/*}; done; echo $P/'') @ [CHR 0x27]\<close>
  by (simp add: find_existing_cmd_def)

lemma bash_find:
  assumes "CHR 0x22 \<notin> set A"
  shows \<open>bash h (''P="'' @ A @ ''"; while [ ! -d "$P/" ]; do P=${P%/*}; done; echo $P/'') = run_find h A\<close>
proof -
  have q: "filter (\<lambda>c. c = CHR 0x22) A = []"
    using assms by (auto simp: filter_empty_conv)
  have u: \<open>\<not> unterminated_dquote (''P="'' @ A @ ''"; while [ ! -d "$P/" ]; do P=${P%/*}; done; echo $P/'')\<close>
    by (simp add: unterminated_dquote_def q)
  have f: \<open>find_script (''P="'' @ A @ ''"; while [ ! -d "$P/" ]; do P=${P%/*}; done; echo $P/'') = Some A\<close>
    using strip_prefix_append [of \<open>''P="''\<close> \<open>A @ ''"; while [ ! -d "$P/" ]; do P=${P%/*}; done; echo $P/''\<close>]
      strip_suffix_append [of \<open>''"; while [ ! -d "$P/" ]; do P=${P%/*}; done; echo $P/''\<close> A]
    by (simp add: find_script_def)
  show ?thesis
    unfolding bash_def using u f by simp
qed


section \<open>What the shell prints\<close>

lemma shell_fields_single: "w \<noteq> [] \<Longrightarrow> \<forall>c\<in>set w. \<not> ifs c \<Longrightarrow> shell_fields w = [w]"
  by (simp add: shell_fields_def split_where_none)

lemma chomp_line: "CHR 0x0A \<notin> set w \<Longrightarrow> chomp (w @ [CHR 0x0A]) = w"
  by (cases w rule: rev_cases) (auto simp: chomp_def)

lemma echo_single: "echo [w] = w @ [CHR 0x0A]"
  by (simp add: echo_def)

lemma wrapped_output:
  assumes "path_text out"
  shows "plain_text (chomp (out @ [CHR 0x0A]))"
    and "echo_prints_all (shell_fields (chomp (out @ [CHR 0x0A]) @ ''-''))"
    and "echo (shell_fields (chomp (out @ [CHR 0x0A]) @ ''-'')) = out @ ''-'' @ [CHR 0x0A]"
proof -
  have c: "chomp (out @ [CHR 0x0A]) = out"
    using assms by (intro chomp_line path_text_chars)
  have "\<forall>c\<in>set (out @ ''-''). \<not> ifs c"
    using assms path_text_no_ifs [of out] by (auto simp: ifs_def)
  then have f: "shell_fields (out @ ''-'') = [out @ ''-'']"
    by (intro shell_fields_single) simp_all
  show "plain_text (chomp (out @ [CHR 0x0A]))"
    using assms by (simp add: c path_text_plain_text)
  show "echo_prints_all (shell_fields (chomp (out @ [CHR 0x0A]) @ ''-''))"
    by (simp add: c f echo_prints_all_def)
  show "echo (shell_fields (chomp (out @ [CHR 0x0A]) @ ''-'')) = out @ ''-'' @ [CHR 0x0A]"
    by (simp add: c f echo_single)
qed

lemma posix_wrapped_line:
  assumes "CHR ''`'' \<notin> set cmd" and "CHR 0x5C \<notin> set cmd"
    and "command h cmd = Answer (ok (out @ [CHR 0x0A])) h1" and "path_text out"
  shows "posix h (''echo `'' @ cmd @ ''`-'') = Answer (ok (out @ ''-'' @ [CHR 0x0A])) h1"
  using assms(3) wrapped_output [OF assms(4)]
  by (subst posix_wrapped [OF assms(1,2)]) (simp add: ok_def)

lemma run_string_cmd_line:
  assumes "transport s = posix"
    and "CHR ''`'' \<notin> set cmd" and "CHR 0x5C \<notin> set cmd"
    and "command (remote s) cmd = Answer (ok (out @ [CHR 0x0A])) h1" and "path_text out"
  shows "run_string_cmd cmd s =
           (Inr out, s\<lparr>remote := h1, sent := sent s @ [''echo `'' @ cmd @ ''`-'']\<rparr>)"
proof -
  have "posix (remote s) (''echo `'' @ cmd @ ''`-'') = Answer (ok (out @ ''-'' @ [CHR 0x0A])) h1"
    using assms(2-5) by (rule posix_wrapped_line)
  then have "transport s (remote s) (''echo `'' @ cmd @ ''`-'') = Answer (ok (out @ ''-'' @ [CHR 0x0A])) h1"
    using assms(1) by simp
  moreover have "exit_code (ok (out @ ''-'' @ [CHR 0x0A])) = 0" by (simp add: ok_def)
  ultimately have "run_string_cmd cmd s =
      (Inr (butlast (trim_end (std_output (ok (out @ ''-'' @ [CHR 0x0A]))))),
       s\<lparr>remote := h1, sent := sent s @ [''echo `'' @ cmd @ ''`-'']\<rparr>)"
    by (rule run_string_cmd_ok)
  moreover have "butlast (trim_end (std_output (ok (out @ ''-'' @ [CHR 0x0A])))) = out"
    using trim_end_sentinel [of out] by (simp add: ok_def butlast_append)
  ultimately show ?thesis by simp
qed

lemma run_find_path:
  assumes "path_text A" and "existing_ancestor h A = Some P" and "path_text P"
  shows "run_find h A = Answer (ok ((P @ ''/'') @ [CHR 0x0A])) h"
proof -
  have pt: "path_text (P @ ''/'')"
    using assms(3) by (simp add: path_text_append) (simp add: path_text_def)
  have "\<forall>c\<in>set (P @ ''/''). \<not> ifs c"
    using path_text_no_ifs [OF pt] by blast
  then have f: "shell_fields (P @ ''/'') = [P @ ''/'']"
    by (intro shell_fields_single) simp_all
  show ?thesis
    using assms(1,2) pt
    by (simp add: run_find_def path_text_dq_literal path_text_plain_text f echo_prints_all_def
        echo_single)
qed

lemma command_find:
  assumes "path_text A" and "existing_ancestor h A = Some P" and "path_text P"
  shows "command h (find_existing_cmd A) = Answer (ok ((P @ ''/'') @ [CHR 0x0A])) h"
proof -
  have q: \<open>CHR 0x27 \<notin> set (''P="'' @ A @ ''"; while [ ! -d "$P/" ]; do P=${P%/*}; done; echo $P/'')\<close>
    using path_text_chars(2) [OF assms(1)] by simp
  have "command h (find_existing_cmd A) = run_find h A"
    unfolding find_existing_cmd_shape command_sudo [OF q]
    by (rule bash_find) (rule path_text_chars(1) [OF assms(1)])
  then show ?thesis
    using assms by (simp add: run_find_path)
qed

lemma find_existing_cmd_chars:
  "path_text A \<Longrightarrow> CHR ''`'' \<notin> set (find_existing_cmd A) \<and> CHR 0x5C \<notin> set (find_existing_cmd A)"
  by (simp add: find_existing_cmd_def path_text_chars)

lemma run_string_cmd_find:
  assumes "transport s = posix"
    and "path_text A" and "existing_ancestor (remote s) A = Some P" and "path_text P"
  shows "run_string_cmd (find_existing_cmd A) s =
           (Inr (P @ ''/''), s\<lparr>sent := sent s @ [''echo `'' @ find_existing_cmd A @ ''`-'']\<rparr>)"
proof -
  have pt: "path_text (P @ ''/'')"
    using assms(4) by (simp add: path_text_append) (simp add: path_text_def)
  have "run_string_cmd (find_existing_cmd A) s =
           (Inr (P @ ''/''), s\<lparr>remote := remote s, sent := sent s @ [''echo `'' @ find_existing_cmd A @ ''`-'']\<rparr>)"
    using assms(1) find_existing_cmd_chars [OF assms(2)] command_find [OF assms(2,3,4)] pt
    by (intro run_string_cmd_line) simp_all
  then show ?thesis by simp
qed

lemma run_string_cmd_pwd:
  assumes "transport s = posix" and "path_text (render (login_dir (remote s)))"
  shows "run_string_cmd ''pwd'' s =
           (Inr (render (login_dir (remote s))), s\<lparr>sent := sent s @ [''echo `pwd`-'']\<rparr>)"
proof -
  have "command (remote s) ''pwd'' = Answer (ok (render (login_dir (remote s)) @ [CHR 0x0A])) (remote s)"
    by (simp add: command_def)
  then have "run_string_cmd ''pwd'' s =
      (Inr (render (login_dir (remote s))),
       s\<lparr>remote := remote s, sent := sent s @ [''echo `'' @ ''pwd'' @ ''`-'']\<rparr>)"
    using assms by (intro run_string_cmd_line) simp_all
  then show ?thesis by simp
qed

lemma run_string_cmd_id_nu:
  assumes "transport s = posix" and "list_all plain_char (login_user (remote s))"
  shows "run_string_cmd ''id -nu'' s =
           (Inr (login_user (remote s)), s\<lparr>sent := sent s @ [''echo `id -nu`-'']\<rparr>)"
proof -
  have "command (remote s) ''id -nu'' = Answer (ok (login_user (remote s) @ [CHR 0x0A])) (remote s)"
    by (simp add: command_def)
  moreover have "path_text (login_user (remote s))"
    using assms(2) by (simp add: path_text_def list_all_iff)
  ultimately have "run_string_cmd ''id -nu'' s =
      (Inr (login_user (remote s)),
       s\<lparr>remote := remote s, sent := sent s @ [''echo `'' @ ''id -nu'' @ ''`-'']\<rparr>)"
    using assms by (intro run_string_cmd_line) simp_all
  then show ?thesis by simp
qed

lemma run_string_cmd_id_ng:
  assumes "transport s = posix" and "list_all plain_char (login_group (remote s))"
  shows "run_string_cmd ''id -ng'' s =
           (Inr (login_group (remote s)), s\<lparr>sent := sent s @ [''echo `id -ng`-'']\<rparr>)"
proof -
  have "command (remote s) ''id -ng'' = Answer (ok (login_group (remote s) @ [CHR 0x0A])) (remote s)"
    by (simp add: command_def)
  moreover have "path_text (login_group (remote s))"
    using assms(2) by (simp add: path_text_def list_all_iff)
  ultimately have "run_string_cmd ''id -ng'' s =
      (Inr (login_group (remote s)),
       s\<lparr>remote := remote s, sent := sent s @ [''echo `'' @ ''id -ng'' @ ''`-'']\<rparr>)"
    using assms by (intro run_string_cmd_line) simp_all
  then show ?thesis by simp
qed


section \<open>QDir on plain paths\<close>

lemma plain_name_last: "plain_name n \<Longrightarrow> last n \<noteq> CHR ''/''"
proof
  assume a: "plain_name n" and b: "last n = CHR ''/''"
  from a have "n \<noteq> []" by (simp add: plain_name_def)
  then have "last n \<in> set n" by (rule last_in_set)
  with a b show False using plain_name_no_slash by metis
qed

lemma abs_string_last:
  "list_all plain_name comps \<Longrightarrow> comps \<noteq> [] \<Longrightarrow> last (abs_string comps) \<noteq> CHR ''/''"
  by (cases comps rule: rev_cases)
     (simp_all add: abs_string_append abs_string_Cons abs_string_Nil plain_name_def plain_name_last)

lemma abs_string_hd: "comps \<noteq> [] \<Longrightarrow> hd (abs_string comps) = CHR ''/''"
  by (cases comps) (simp_all add: abs_string_Cons)

lemma QDir_abs:
  "list_all plain_name comps \<Longrightarrow> comps \<noteq> [] \<Longrightarrow> QDir (abs_string comps) = abs_string comps"
  by (simp add: QDir_def abs_string_eq_Nil abs_string_last)

lemma isRelative_abs: "comps \<noteq> [] \<Longrightarrow> \<not> isRelative (abs_string comps)"
  by (simp add: isRelative_def isRelativePath_def abs_string_eq_Nil abs_string_hd)

lemma QDir_existing: "QDir (abs_string pre @ ''/'') = render pre"
proof (cases "pre = []")
  case True
  then show ?thesis by (simp add: QDir_def render_def abs_string_Nil)
next
  case False
  then have "abs_string pre \<noteq> []" by (simp add: abs_string_eq_Nil)
  then have "butlast (abs_string pre @ ''/'') = abs_string pre" and "1 < length (abs_string pre @ ''/'')"
    by (simp_all add: butlast_append)
  then show ?thesis using False by (simp add: QDir_def render_abs)
qed

lemma resolve_dots_names:
  "list_all plain_name ws \<Longrightarrow> resolve_dots r acc ws = rev acc @ ws"
  by (induction ws arbitrary: acc) (simp_all add: plain_name_def)

lemma resolve_dots_names_dot:
  "list_all plain_name ws \<Longrightarrow> resolve_dots r acc (ws @ [''.'']) = rev acc @ ws"
  by (induction ws arbitrary: acc) (simp_all add: plain_name_def)

lemma join_abs: "comps \<noteq> [] \<Longrightarrow> CHR ''/'' # join_with ''/'' comps = abs_string comps"
  by (induction "''/''" comps rule: join_with.induct) (simp_all add: abs_string_Nil abs_string_Cons)

lemma join_eq_Nil: "list_all plain_name ws \<Longrightarrow> join_with sep ws = [] \<longleftrightarrow> ws = []"
  by (induction sep ws rule: join_with.induct) (simp_all add: plain_name_def)

lemma names_filter: "list_all plain_name comps \<Longrightarrow> filter (\<lambda>w. w \<noteq> []) comps = comps"
  by (auto simp: list_all_iff plain_name_def intro: filter_True)

lemma cleanPath_abs:
  assumes "list_all plain_name comps" and "comps \<noteq> []"
  shows "cleanPath (abs_string comps) = abs_string comps"
  using assms
  by (simp add: cleanPath_def abs_string_eq_Nil isRelativePath_def abs_string_hd segments_abs
      resolve_dots_names join_abs Let_def)

lemma cleanPath_render:
  assumes "list_all plain_name comps"
  shows "cleanPath (render comps) = render comps"
proof (cases "comps = []")
  case True
  then show ?thesis
    by (simp add: render_def cleanPath_def isRelativePath_def segments_def split_on_def)
next
  case False
  then show ?thesis using assms by (simp add: render_abs cleanPath_abs)
qed

lemma segments_render: "list_all plain_name comps \<Longrightarrow> segments (render comps) = comps"
  by (cases "comps = []") (simp_all add: render_abs segments_abs, simp add: render_def segments_def split_on_def)

lemma render_absolute: "\<not> isRelativePath (render comps)"
  by (cases comps) (simp_all add: render_def isRelativePath_def)

lemma common_prefix_length_append: "common_prefix_length xs (xs @ ys) = length xs"
  by (induction xs) simp_all

lemma relativeFilePath_plain:
  assumes "list_all plain_name (pre @ rest)" and "pre @ rest \<noteq> []"
  shows "relativeFilePath cur (render pre) (abs_string (pre @ rest))
           = (if rest = [] then ''.'' else join_with ''/'' rest)"
proof -
  have pre: "list_all plain_name pre" and rest: "list_all plain_name rest" using assms(1) by simp_all
  have d: "cleanPath (absolutePath cur (render pre)) = render pre"
    using pre by (simp add: absolutePath_def render_absolute cleanPath_render)
  have f: "cleanPath (abs_string (pre @ rest)) = abs_string (pre @ rest)"
    using assms by (rule cleanPath_abs)
  have fa: "\<not> isRelativePath (abs_string (pre @ rest))"
    using assms(2) by (simp add: isRelativePath_def abs_string_eq_Nil abs_string_hd)
  have sd: "segments (render pre) = pre" using pre by (rule segments_render)
  have sf: "segments (abs_string (pre @ rest)) = pre @ rest" using assms(1) by (rule segments_abs)
  show ?thesis
    unfolding relativeFilePath_def d f
    using fa rest by (simp add: Let_def render_absolute sd sf common_prefix_length_append join_eq_Nil)
qed

lemma rejoin:
  assumes "list_all plain_name (pre @ rest)" and "pre @ rest \<noteq> []"
  shows "cleanPath ((abs_string pre @ ''/'') @ (if rest = [] then ''.'' else join_with ''/'' rest))
           = abs_string (pre @ rest)"
proof (cases "rest = []")
  case True
  have "abs_string pre @ ''/'' @ ''.'' = abs_string (pre @ [''.''])"
    by (simp add: abs_string_append abs_string_Cons abs_string_Nil)
  moreover have "segments (abs_string (pre @ [''.''])) = pre @ [''.'']"
  proof -
    have "\<forall>m\<in>set (pre @ [''.'']). CHR ''/'' \<notin> set m"
      using assms(1) by (auto simp: list_all_iff plain_name_no_slash)
    then have "split_on CHR ''/'' (abs_string (pre @ [''.''])) = [] # pre @ [''.'']"
      by (rule split_on_slash_free)
    then show ?thesis using assms(1) by (simp add: segments_def names_filter)
  qed
  moreover have "hd (abs_string (pre @ [''.''])) = CHR ''/''" by (rule abs_string_hd) simp
  ultimately show ?thesis
    using True assms
    by (simp add: cleanPath_def isRelativePath_def abs_string_eq_Nil resolve_dots_names_dot join_abs Let_def)
next
  case False
  then have "abs_string pre @ ''/'' @ join_with ''/'' rest = abs_string (pre @ rest)"
    using join_abs [of rest] by (simp add: abs_string_append)
  then show ?thesis using False assms by (simp add: cleanPath_abs)
qed

lemma first_missing:
  assumes "ds [] \<noteq> None"
  shows "\<exists>pre rest. comps = pre @ rest \<and> all_exist ds pre \<and> (rest \<noteq> [] \<longrightarrow> ds (pre @ [hd rest]) = None)"
proof (induction comps rule: rev_induct)
  case Nil
  show ?case using assms by (simp add: all_exist_Nil)
next
  case (snoc x xs)
  then obtain pre rest where d: "xs = pre @ rest" "all_exist ds pre"
    "rest \<noteq> [] \<longrightarrow> ds (pre @ [hd rest]) = None" by blast
  show ?case
  proof (cases "rest = []")
    case False
    then have "xs @ [x] = pre @ (rest @ [x]) \<and> all_exist ds pre
                 \<and> (rest @ [x] \<noteq> [] \<longrightarrow> ds (pre @ [hd (rest @ [x])]) = None)"
      using d by simp
    then show ?thesis by blast
  next
    case True
    show ?thesis
    proof (cases "ds (xs @ [x]) = None")
      case True
      with \<open>rest = []\<close> d have "xs @ [x] = xs @ [x] \<and> all_exist ds xs
                 \<and> ([x] \<noteq> [] \<longrightarrow> ds (xs @ [hd [x]]) = None)" by simp
      then show ?thesis by blast
    next
      case False
      with \<open>rest = []\<close> d have "xs @ [x] = (xs @ [x]) @ [] \<and> all_exist ds (xs @ [x])
                 \<and> (([]::string list) \<noteq> [] \<longrightarrow> ds ((xs @ [x]) @ [hd []]) = None)"
        by (simp add: all_exist_snoc)
      then show ?thesis by blast
    qed
  qed
qed

lemma existing_ancestor_split:
  assumes "list_all plain_name (pre @ rest)" and "all_exist (directories h) pre"
    and "rest \<noteq> [] \<longrightarrow> directories h (pre @ [hd rest]) = None"
  shows "existing_ancestor h (abs_string (pre @ rest)) = Some (abs_string pre)"
proof (cases rest)
  case Nil
  then show ?thesis using assms by (simp add: existing_ancestor_all)
next
  case (Cons a r)
  then show ?thesis using assms existing_ancestor_missing [of pre a r h] by simp
qed


section \<open>The path split on a plain target\<close>

lemma split_after_absolute:
  assumes "transport s = posix"
    and "list_all plain_name (pre @ rest)" and "pre @ rest \<noteq> []"
    and "all_exist (directories (remote s)) pre"
    and "rest \<noteq> [] \<longrightarrow> directories (remote s) (pre @ [hd rest]) = None"
  shows "and_then (run_string_cmd (find_existing_cmd (abs_string (pre @ rest)))) (\<lambda>existing.
           (\<lambda>s. returns (existing, relativeFilePath (current_path s) (QDir existing)
                                      (abs_string (pre @ rest))) s)) s
         = (Inr (abs_string pre @ ''/'', if rest = [] then ''.'' else join_with ''/'' rest),
            s\<lparr>sent := sent s @ [''echo `'' @ find_existing_cmd (abs_string (pre @ rest)) @ ''`-'']\<rparr>)"
proof -
  have "existing_ancestor (remote s) (abs_string (pre @ rest)) = Some (abs_string pre)"
    using assms(2,4,5) by (rule existing_ancestor_split)
  moreover have "path_text (abs_string (pre @ rest))" and "path_text (abs_string pre)"
    using assms(2) by (simp_all add: path_text_abs)
  ultimately have "run_string_cmd (find_existing_cmd (abs_string (pre @ rest))) s =
      (Inr (abs_string pre @ ''/''),
       s\<lparr>sent := sent s @ [''echo `'' @ find_existing_cmd (abs_string (pre @ rest)) @ ''`-'']\<rparr>)"
    using assms(1) by (intro run_string_cmd_find)
  then show ?thesis
    using relativeFilePath_plain [OF assms(2,3)]
    by (simp add: and_then_def returns_def QDir_existing)
qed

lemma get_path_split_absolute:
  assumes "transport s = posix"
    and "list_all plain_name (pre @ rest)" and "pre @ rest \<noteq> []"
    and "all_exist (directories (remote s)) pre"
    and "rest \<noteq> [] \<longrightarrow> directories (remote s) (pre @ [hd rest]) = None"
  shows "get_path_split (abs_string (pre @ rest)) s
         = (Inr (abs_string pre @ ''/'', if rest = [] then ''.'' else join_with ''/'' rest),
            s\<lparr>sent := sent s @ [''echo `'' @ find_existing_cmd (abs_string (pre @ rest)) @ ''`-'']\<rparr>)"
proof -
  have q: "QDir (abs_string (pre @ rest)) = abs_string (pre @ rest)"
    using assms(2,3) by (rule QDir_abs)
  have r: "\<not> isRelative (abs_string (pre @ rest))"
    using assms(3) by (rule isRelative_abs)
  have "get_path_split (abs_string (pre @ rest)) s =
        and_then (run_string_cmd (find_existing_cmd (abs_string (pre @ rest)))) (\<lambda>existing.
           (\<lambda>s. returns (existing, relativeFilePath (current_path s) (QDir existing)
                                      (abs_string (pre @ rest))) s)) s"
    by (simp add: get_path_split_def q r Let_def and_then_def returns_def)
  then show ?thesis
    using split_after_absolute [OF assms] by simp
qed

lemma join_relative:
  assumes "list_all plain_name comps" and "comps \<noteq> []"
  shows "QDir (join_with ''/'' comps) = join_with ''/'' comps"
    and "isRelative (join_with ''/'' comps)"
proof -
  obtain c cs where c: "comps = c # cs" using assms(2) by (cases comps) auto
  have j: "CHR ''/'' # join_with ''/'' comps = abs_string comps"
    using assms(2) by (rule join_abs)
  have ne: "join_with ''/'' comps \<noteq> []"
    using assms by (simp add: join_eq_Nil)
  have "last (join_with ''/'' comps) = last (abs_string comps)"
    using ne by (simp flip: j)
  then have l: "last (join_with ''/'' comps) \<noteq> CHR ''/''"
    using assms by (simp add: abs_string_last)
  show "QDir (join_with ''/'' comps) = join_with ''/'' comps"
    using ne l by (simp add: QDir_def)
  have "c \<noteq> []" and "hd c \<noteq> CHR ''/''"
    using assms(1) c plain_name_no_slash [of c] by (auto simp: plain_name_def) (metis hd_in_set)
  moreover have "hd (join_with ''/'' (c # cs)) = hd c"
    using \<open>c \<noteq> []\<close> by (cases cs) simp_all
  ultimately show "isRelative (join_with ''/'' comps)"
    using ne by (simp add: isRelative_def isRelativePath_def c)
qed

lemma get_path_split_relative:
  assumes "transport s = posix"
    and "list_all plain_name (login_dir (remote s))" and "login_dir (remote s) \<noteq> []"
    and "list_all plain_name comps" and "comps \<noteq> []"
    and "login_dir (remote s) @ comps = pre @ rest"
    and "all_exist (directories (remote s)) pre"
    and "rest \<noteq> [] \<longrightarrow> directories (remote s) (pre @ [hd rest]) = None"
  shows "get_path_split (join_with ''/'' comps) s
         = (Inr (abs_string pre @ ''/'', if rest = [] then ''.'' else join_with ''/'' rest),
            s\<lparr>sent := sent s @ [''echo `pwd`-'',
                 ''echo `'' @ find_existing_cmd (abs_string (pre @ rest)) @ ''`-'']\<rparr>)"
proof -
  let ?s1 = "s\<lparr>sent := sent s @ [''echo `pwd`-'']\<rparr>"
  have names: "list_all plain_name (pre @ rest)" and ne: "pre @ rest \<noteq> []"
    using assms(2,4,5) by (simp_all flip: assms(6))
  have "path_text (render (login_dir (remote s)))"
    using assms(2,3) by (simp add: render_abs path_text_abs)
  then have pwd: "run_string_cmd ''pwd'' s = (Inr (render (login_dir (remote s))), ?s1)"
    using assms(1) by (intro run_string_cmd_pwd)
  have abs: "render (login_dir (remote s)) @ ''/'' @ join_with ''/'' comps = abs_string (pre @ rest)"
    using assms(3,5) join_abs [of comps] by (simp add: render_abs abs_string_append flip: assms(6))
  have "get_path_split (join_with ''/'' comps) s =
        and_then (run_string_cmd (find_existing_cmd (abs_string (pre @ rest)))) (\<lambda>existing.
           (\<lambda>s. returns (existing, relativeFilePath (current_path s) (QDir existing)
                                      (abs_string (pre @ rest))) s)) ?s1"
    using abs by (simp add: get_path_split_def join_relative [OF assms(4,5)] Let_def and_then_def returns_def pwd)
  also have "\<dots> = (Inr (abs_string pre @ ''/'', if rest = [] then ''.'' else join_with ''/'' rest),
            ?s1\<lparr>sent := sent ?s1 @ [''echo `'' @ find_existing_cmd (abs_string (pre @ rest)) @ ''`-'']\<rparr>)"
    using assms(1,7,8) names ne by (intro split_after_absolute) simp_all
  finally show ?thesis by simp
qed


section \<open>Creating the missing directories\<close>

lemma mkdir_cmd_shape:
  \<open>mkdir_cmd R T =
     ''sudo /bin/bash -c '' @ [CHR 0x27] @ (''cd "'' @ R @ ''" && mkdir -p "'' @ T @ ''"'') @ [CHR 0x27]\<close>
  by (simp add: mkdir_cmd_def)

lemma chown_cmd_shape:
  \<open>chown_cmd R U G F =
     ''sudo /bin/bash -c '' @ [CHR 0x27] @ (''cd "'' @ R @ ''" && chown -R '' @ (U @ '':'' @ G @ '' '' @ F))
       @ [CHR 0x27]\<close>
  by (simp add: chown_cmd_def)

lemma takeWhile_until_quote:
  "CHR 0x22 \<notin> set R \<Longrightarrow> takeWhile (\<lambda>c. c \<noteq> CHR 0x22) (R @ CHR 0x22 # x) = R"
  by (subst takeWhile_append2) auto

lemma cd_script_parse:
  assumes "CHR 0x22 \<notin> set R" and "next = CHR 0x22 # n"
  shows \<open>cd_script next (''cd "'' @ R @ next @ x) = Some (R, x)\<close>
proof -
  have a: \<open>strip_prefix ''cd "'' (''cd "'' @ R @ next @ x) = Some (R @ next @ x)\<close>
    by (rule strip_prefix_append)
  have b: "takeWhile (\<lambda>c. c \<noteq> CHR 0x22) (R @ next @ x) = R"
    using assms takeWhile_until_quote [of R "n @ x"] by simp
  have c: "strip_prefix next (drop (length R) (R @ next @ x)) = Some x"
    by (simp add: strip_prefix_append)
  show ?thesis
    unfolding cd_script_def a using b c by simp
qed

lemma bash_mkdir:
  assumes "CHR 0x22 \<notin> set R" and "CHR 0x22 \<notin> set T"
  shows \<open>bash h (''cd "'' @ R @ ''" && mkdir -p "'' @ T @ ''"'') = run_mkdir h R T\<close>
proof -
  let ?script = \<open>''cd "'' @ R @ ''" && mkdir -p "'' @ T @ ''"''\<close>
  have q: "filter (\<lambda>c. c = CHR 0x22) R = []" "filter (\<lambda>c. c = CHR 0x22) T = []"
    using assms by (auto simp: filter_empty_conv)
  have u: "\<not> unterminated_dquote ?script"
    by (simp add: unterminated_dquote_def q)
  have f: "find_script ?script = None"
    by (simp add: find_script_def strip_prefix_def)
  have c: \<open>cd_script ''" && mkdir -p "'' (''cd "'' @ R @ ''" && mkdir -p "'' @ (T @ [CHR 0x22])) = Some (R, T @ [CHR 0x22])\<close>
    using assms(1) by (intro cd_script_parse) simp_all
  have s: "strip_suffix [CHR 0x22] (T @ [CHR 0x22]) = Some T"
    by (rule strip_suffix_append)
  show ?thesis
    unfolding bash_def using u f c s by simp
qed

lemma bash_chown:
  assumes "CHR 0x22 \<notin> set R" and "CHR 0x22 \<notin> set x"
  shows \<open>bash h (''cd "'' @ R @ ''" && chown -R '' @ x) = run_chown h R x\<close>
proof -
  let ?script = \<open>''cd "'' @ R @ ''" && chown -R '' @ x\<close>
  have q: "filter (\<lambda>c. c = CHR 0x22) R = []" "filter (\<lambda>c. c = CHR 0x22) x = []"
    using assms by (auto simp: filter_empty_conv)
  have u: "\<not> unterminated_dquote ?script"
    by (simp add: unterminated_dquote_def q)
  have f: "find_script ?script = None"
    by (simp add: find_script_def strip_prefix_def)
  have t: "takeWhile (\<lambda>c. c \<noteq> CHR 0x22) (R @ CHR 0x22 # '' && chown -R '' @ x) = R"
    using assms(1) by (rule takeWhile_until_quote)
  have m: \<open>cd_script ''" && mkdir -p "'' ?script = None\<close>
    using t strip_prefix_append [of \<open>''cd "''\<close> \<open>R @ ''" && chown -R '' @ x\<close>]
    by (simp add: cd_script_def) (simp add: strip_prefix_def)
  have c: \<open>cd_script ''" && chown -R '' (''cd "'' @ R @ ''" && chown -R '' @ x) = Some (R, x)\<close>
    using assms(1) by (intro cd_script_parse) simp_all
  show ?thesis
    unfolding bash_def using u f m c by simp
qed

lemma posix_mkdir:
  assumes "path_text R" and "path_text T"
  shows "posix h (mkdir_cmd R T) = run_mkdir h R T"
proof -
  have q: \<open>CHR 0x27 \<notin> set (''cd "'' @ R @ ''" && mkdir -p "'' @ T @ ''"'')\<close>
    using path_text_chars(2) [OF assms(1)] path_text_chars(2) [OF assms(2)] by simp
  show ?thesis
    unfolding mkdir_cmd_shape posix_sudo command_sudo [OF q]
    using assms by (intro bash_mkdir path_text_chars)
qed

lemma posix_chown:
  assumes "path_text R" and "CHR 0x22 \<notin> set x" and "CHR 0x27 \<notin> set x"
    and "x = U @ '':'' @ G @ '' '' @ F"
  shows "posix h (chown_cmd R U G F) = run_chown h R x"
proof -
  have q: \<open>CHR 0x27 \<notin> set (''cd "'' @ R @ ''" && chown -R '' @ x)\<close>
    using path_text_chars(2) [OF assms(1)] assms(3) by simp
  have \<open>posix h (chown_cmd R U G F) = bash h (''cd "'' @ R @ ''" && chown -R '' @ x)\<close>
    unfolding chown_cmd_shape posix_sudo assms(4) [symmetric] command_sudo [OF q] ..
  also have "\<dots> = run_chown h R x"
    using path_text_chars(1) [OF assms(1)] assms(2) by (rule bash_chown)
  finally show ?thesis .
qed


section \<open>What mkdir and chown do to the tree\<close>

lemma walk_trailing_empty:
  "list_all plain_name ws \<Longrightarrow> walk ds cur (ws @ [[]]) = walk ds cur ws"
  by (induction ws arbitrary: cur) (simp_all add: enter_def)

lemma resolve_abs_slash:
  assumes "list_all plain_name comps"
  shows "resolve_from ds base (abs_string comps @ ''/'') = (if all_exist ds comps then Some comps else None)"
proof -
  have s: "split_on CHR ''/'' (abs_string comps @ ''/'') = [] # comps @ [[]]"
    using assms by (rule split_on_abs_slash)
  have hd: "hd (abs_string comps @ ''/'') = CHR ''/''"
    by (cases comps) (simp_all add: abs_string_Nil abs_string_Cons)
  have "resolve_from ds base (abs_string comps @ ''/'')
          = (if ds [] = None then None else walk ds [] comps)"
    using assms by (simp add: resolve_from_def hd s walk_trailing_empty enter_def)
  also have "\<dots> = (if all_exist ds comps then Some comps else None)"
    using assms all_exist_iff [of ds comps] by (auto simp: walk_names)
  finally show ?thesis .
qed

lemma resolve_name:
  assumes "plain_name a"
  shows "resolve_from ds base a = (if ds base \<noteq> None \<and> ds (base @ [a]) \<noteq> None then Some (base @ [a]) else None)"
proof -
  have "a \<noteq> []" and "hd a \<noteq> CHR ''/''"
    using assms plain_name_no_slash [of a] by (auto simp: plain_name_def) (metis hd_in_set)
  moreover have "split_on CHR ''/'' a = [a]"
    using plain_name_no_slash [OF assms] split_on_name_abs [of a "[]"] by (simp add: abs_string_Nil)
  ultimately show ?thesis
    using assms by (simp add: resolve_from_def plain_name_enter)
qed

lemma make_dirs_keeps: "ds p \<noteq> None \<Longrightarrow> make_dirs ds cur ws p = ds p"
proof (induction ws arbitrary: ds cur)
  case Nil
  then show ?case by simp
next
  case (Cons w ws)
  let ?ds = "if ds (enter cur w) = None then ds(enter cur w \<mapsto> (''root'', ''root'')) else ds"
  have same: "?ds p = ds p" using Cons.prems by auto
  then have "?ds p \<noteq> None" using Cons.prems by simp
  then have "make_dirs ?ds (enter cur w) ws p = ?ds p" by (rule Cons.IH)
  then show ?case using same by (simp add: Let_def)
qed

lemma make_dirs_creates:
  "list_all plain_name ws \<Longrightarrow> 1 \<le> k \<Longrightarrow> k \<le> length ws \<Longrightarrow>
   make_dirs ds cur ws (cur @ take k ws) \<noteq> None"
proof (induction ws arbitrary: ds cur k)
  case Nil
  then show ?case by simp
next
  case (Cons w ws)
  let ?ds = "if ds (cur @ [w]) = None then ds(cur @ [w] \<mapsto> (''root'', ''root'')) else ds"
  have e: "enter cur w = cur @ [w]" using Cons.prems(1) by (simp add: plain_name_enter)
  have n: "?ds (cur @ [w]) \<noteq> None" by simp
  show ?case
  proof (cases k)
    case 0
    then show ?thesis using Cons.prems by simp
  next
    case (Suc j)
    show ?thesis
    proof (cases j)
      case 0
      have "make_dirs ?ds (cur @ [w]) ws (cur @ [w]) = ?ds (cur @ [w])"
        using n by (rule make_dirs_keeps)
      then show ?thesis using Suc 0 n by (simp add: e Let_def)
    next
      case (Suc i)
      have "make_dirs ?ds (cur @ [w]) ws ((cur @ [w]) @ take j ws) \<noteq> None"
        using Cons.prems Suc \<open>k = Suc j\<close> by (intro Cons.IH) simp_all
      then show ?thesis using \<open>k = Suc j\<close> by (simp add: e Let_def)
    qed
  qed
qed

lemma make_dirs_outside:
  "list_all plain_name (w # ws) \<Longrightarrow> \<not> prefix (cur @ [w]) p \<Longrightarrow> make_dirs ds cur (w # ws) p = ds p"
proof (induction ws arbitrary: ds cur w)
  case Nil
  then show ?case by (auto simp: plain_name_enter Let_def)
next
  case (Cons v vs)
  let ?ds = "if ds (cur @ [w]) = None then ds(cur @ [w] \<mapsto> (''root'', ''root'')) else ds"
  have e: "enter cur w = cur @ [w]" using Cons.prems(1) by (simp add: plain_name_enter)
  have "\<not> prefix ((cur @ [w]) @ [v]) p"
    using Cons.prems(2) by (meson append_prefixD)
  then have "make_dirs ?ds (cur @ [w]) (v # vs) p = ?ds p"
    using Cons.prems(1) by (intro Cons.IH) simp_all
  moreover have "?ds p = ds p" using Cons.prems(2) by auto
  ultimately show ?case
    by (subst make_dirs.simps) (simp only: e Let_def)
qed

lemma make_dirs_all_exist: "all_exist ds pre \<Longrightarrow> all_exist (make_dirs ds cur ws) pre"
  by (simp add: all_exist_def list_all_iff make_dirs_keeps)

lemma join_Cons_abs: "join_with ''/'' (a # rest) = a @ abs_string rest"
  using join_abs [of "a # rest"] by (simp add: abs_string_Cons)

lemma run_mkdir_plain:
  assumes "list_all plain_name (pre @ a # rest)" and "all_exist (directories h) pre"
  shows "run_mkdir h (abs_string pre @ ''/'') (join_with ''/'' (a # rest))
           = Answer (ok []) (h\<lparr>directories := make_dirs (directories h) pre (a # rest)\<rparr>)"
proof -
  have a: "plain_name a" and pre: "list_all plain_name pre" and rest: "list_all plain_name rest"
    using assms(1) by simp_all
  have R: "path_text (abs_string pre @ ''/'')"
    using pre by (simp add: path_text_append path_text_abs) (simp add: path_text_def)
  have T: "path_text (join_with ''/'' (a # rest))"
    using a rest by (simp add: join_Cons_abs path_text_append path_text_abs path_text_name)
  have hdT: "hd (join_with ''/'' (a # rest)) = hd a" and neT: "join_with ''/'' (a # rest) \<noteq> []"
    using a by (simp_all add: join_Cons_abs plain_name_def)
  have hda: "hd a \<noteq> CHR ''-''" "hd a \<noteq> CHR ''/''"
    using a plain_name_no_slash [of a] by (auto simp: plain_name_def) (metis hd_in_set)
  have sp: "split_on CHR ''/'' (join_with ''/'' (a # rest)) = a # rest"
    unfolding join_Cons_abs using a rest
    by (intro split_on_name_abs) (simp_all add: plain_name_no_slash list_all_iff)
  have res: "resolve_from (directories h) (login_dir h) (abs_string pre @ ''/'') = Some pre"
    using pre assms(2) by (simp add: resolve_abs_slash)
  show ?thesis
    using R T neT hda
    by (simp add: run_mkdir_def path_text_dq_literal res hdT sp)
qed

lemma shell_fields_two:
  assumes "\<forall>c\<in>set u. \<not> ifs c" and "\<forall>c\<in>set a. \<not> ifs c" and "u \<noteq> []" and "a \<noteq> []"
  shows "shell_fields (u @ '' '' @ a) = [u, a]"
proof -
  have "split_where ifs (u @ CHR '' '' # a) = u # split_where ifs a"
    using assms(1) by (intro split_where_first) (simp_all add: ifs_def)
  moreover have "split_where ifs a = [a]"
    using assms(2) by (rule split_where_none)
  ultimately show ?thesis using assms(3,4) by (simp add: shell_fields_def)
qed

lemma run_chown_plain:
  assumes "list_all plain_name pre" and "plain_name a"
    and "all_exist (directories h) pre" and "directories h (pre @ [a]) \<noteq> None"
    and "list_all plain_char (login_user h)" and "list_all plain_char (login_group h)"
  shows "run_chown h (abs_string pre @ ''/'') (login_user h @ '':'' @ login_group h @ '' '' @ a)
           = Answer (ok [])
               (h\<lparr>directories := chown_tree (directories h) (login_user h, login_group h) (pre @ [a])\<rparr>)"
proof -
  let ?spec = "login_user h @ '':'' @ login_group h"
  have R: "path_text (abs_string pre @ ''/'')"
    using assms(1) by (simp add: path_text_append path_text_abs) (simp add: path_text_def)
  have pa: "list_all plain_char a" "a \<noteq> []" "hd a \<noteq> CHR ''-''"
    using assms(2) by (simp_all add: plain_name_def)
  have pt: "plain_text (?spec @ '' '' @ a)"
    using assms(5,6) pa(1) by (auto simp: plain_text_def list_all_iff ifs_def)
  have "\<not> ifs c" if "c \<in> set (login_user h) \<or> c \<in> set (login_group h)" for c
    using that assms(5,6) plain_char_not_ifs [of c] by (auto simp: list_all_iff)
  then have "\<forall>c\<in>set ?spec. \<not> ifs c"
    by (auto simp: ifs_def)
  moreover have "\<forall>c\<in>set a. \<not> ifs c"
    using pa(1) by (auto simp: list_all_iff dest: plain_char_not_ifs)
  ultimately have f: "shell_fields (?spec @ '' '' @ a) = [?spec, a]"
    using pa(2) by (intro shell_fields_two) simp_all
  have pre: "directories h pre \<noteq> None"
    using assms(3) all_exist_iff [of "directories h" pre] by auto
  have res: "resolve_from (directories h) (login_dir h) (abs_string pre @ ''/'') = Some pre"
    using assms(1,3) by (simp add: resolve_abs_slash)
  have ra: "resolve_from (directories h) pre a = Some (pre @ [a])"
    using assms(2,4) pre by (simp add: resolve_name)
  have "run_chown h (abs_string pre @ ''/'') (?spec @ '' '' @ a)
           = Answer (ok [])
               (h\<lparr>directories := chown_tree (directories h) (login_user h, login_group h) (pre @ [a])\<rparr>)"
    unfolding run_chown_def using R pt pa(3)
    by (simp only: f path_text_dq_literal res ra) (simp add: ra)
  then show ?thesis by simp
qed


section \<open>The steps of the preparation on a POSIX host\<close>

lemma posix_plain_command:
  "cmd \<noteq> [] \<Longrightarrow> hd cmd \<noteq> CHR ''e'' \<Longrightarrow> posix h cmd = command h cmd"
  by (cases cmd) (simp_all add: posix_def strip_prefix_def)

lemma check_sshfs_exists_ok:
  assumes "transport s = posix" and "sshfs_binary (remote s) = Some b"
  shows "check_sshfs_exists s = (Inr (), s\<lparr>sent := sent s @ [''which sshfs'']\<rparr>)"
proof -
  have "posix (remote s) ''which sshfs'' = Answer (ok (b @ [CHR 0x0A])) (remote s)"
    using assms(2) by (simp add: posix_plain_command command_def)
  then show ?thesis
    using assms(1)
    by (simp add: check_sshfs_exists_def run_cmd_with_def and_then_def exec_def returns_def ok_def)
qed

lemma expand_home_directory_other:
  "char_at target 0 \<noteq> CHR ''~'' \<Longrightarrow> expand_home_directory target s = (Inr target, s)"
  by (auto simp: expand_home_directory_def returns_def)

lemma run_cmd_id_u:
  assumes "transport s = posix"
  shows "run_cmd ''id -u'' s = (Inr (login_uid (remote s) @ [CHR 0x0A]), s\<lparr>sent := sent s @ [''id -u'']\<rparr>)"
proof -
  have "posix (remote s) ''id -u'' = Answer (ok (login_uid (remote s) @ [CHR 0x0A])) (remote s)"
    by (simp add: posix_plain_command command_def)
  then have "run_cmd ''id -u'' s = (Inr (std_output (ok (login_uid (remote s) @ [CHR 0x0A]))),
                                    s\<lparr>remote := remote s, sent := sent s @ [''id -u'']\<rparr>)"
    using assms by (intro run_cmd_ok) (simp_all add: ok_def)
  then show ?thesis by (simp add: ok_def)
qed

lemma run_cmd_id_g:
  assumes "transport s = posix"
  shows "run_cmd ''id -g'' s = (Inr (login_gid (remote s) @ [CHR 0x0A]), s\<lparr>sent := sent s @ [''id -g'']\<rparr>)"
proof -
  have "posix (remote s) ''id -g'' = Answer (ok (login_gid (remote s) @ [CHR 0x0A])) (remote s)"
    by (simp add: posix_plain_command command_def)
  then have "run_cmd ''id -g'' s = (Inr (std_output (ok (login_gid (remote s) @ [CHR 0x0A]))),
                                    s\<lparr>remote := remote s, sent := sent s @ [''id -g'']\<rparr>)"
    using assms by (intro run_cmd_ok) (simp_all add: ok_def)
  then show ?thesis by (simp add: ok_def)
qed

lemma run_cmd_answer:
  assumes "transport s = posix" and "posix (remote s) cmd = Answer (ok out) h"
  shows "run_cmd cmd s = (Inr out, s\<lparr>remote := h, sent := sent s @ [cmd]\<rparr>)"
proof -
  have "run_cmd cmd s = (Inr (std_output (ok out)), s\<lparr>remote := h, sent := sent s @ [cmd]\<rparr>)"
    using assms by (intro run_cmd_ok) (simp_all add: ok_def)
  then show ?thesis by (simp add: ok_def)
qed

lemma existing_path_text: "list_all plain_name pre \<Longrightarrow> path_text (abs_string pre @ ''/'')"
  by (simp add: path_text_append path_text_abs) (simp add: path_text_def)

lemma make_target_dir_plain:
  assumes "transport s = posix"
    and "list_all plain_name (pre @ a # rest)" and "all_exist (directories (remote s)) pre"
  shows "make_target_dir (abs_string pre @ ''/'') (join_with ''/'' (a # rest)) s
         = (Inr (),
            s\<lparr>remote := (remote s)\<lparr>directories := make_dirs (directories (remote s)) pre (a # rest)\<rparr>,
              sent := sent s @ [mkdir_cmd (abs_string pre @ ''/'') (join_with ''/'' (a # rest))]\<rparr>)"
proof -
  have a: "plain_name a" and pre: "list_all plain_name pre" and rest: "list_all plain_name rest"
    using assms(2) by simp_all
  have T: "path_text (join_with ''/'' (a # rest))"
    using a rest by (simp add: join_Cons_abs path_text_append path_text_abs path_text_name)
  have ne: "join_with ''/'' (a # rest) \<noteq> []"
    using a by (simp add: join_Cons_abs plain_name_def)
  have "posix (remote s) (mkdir_cmd (abs_string pre @ ''/'') (join_with ''/'' (a # rest)))
          = Answer (ok []) ((remote s)\<lparr>directories := make_dirs (directories (remote s)) pre (a # rest)\<rparr>)"
    using existing_path_text [OF pre] T assms(2,3) by (simp add: posix_mkdir run_mkdir_plain)
  then show ?thesis
    using ne assms(1) by (simp add: make_target_dir_def and_then_def returns_def run_cmd_answer)
qed

lemma first_dir_plain:
  assumes "plain_name a" and "length a < npos"
  shows "(if npos = find_char (join_with ''/'' (a # rest)) CHR ''/'' 0
          then returns (join_with ''/'' (a # rest))
          else lift (substr (join_with ''/'' (a # rest)) 0 (find_char (join_with ''/'' (a # rest)) CHR ''/'' 0)))
         = (returns a :: (string, 'h) action)"
proof (cases rest)
  case Nil
  then show ?thesis
    using assms(1) by (simp add: find_first_none plain_name_no_slash)
next
  case (Cons r rs)
  have "find_char (join_with ''/'' (a # rest)) CHR ''/'' 0 = length a"
    using assms(1) Cons find_first_slash [of a "r @ abs_string rs"]
    by (simp add: join_Cons_abs abs_string_Cons plain_name_no_slash)
  moreover have "substr (join_with ''/'' (a # rest)) 0 (length a) = Inr a"
    by (simp add: substr_def join_Cons_abs)
  moreover have "lift (Inr a) = (returns a :: (string, 'h) action)"
    by (rule ext) (simp add: lift_def returns_def)
  ultimately show ?thesis using assms(2) by simp
qed

lemma set_owner_for_plain:
  assumes "transport s = posix"
    and "list_all plain_name (pre @ a # rest)" and "length a < npos"
    and "all_exist (directories (remote s)) pre" and "directories (remote s) (pre @ [a]) \<noteq> None"
    and "list_all plain_char (login_user (remote s))" and "list_all plain_char (login_group (remote s))"
  shows "set_owner_for (abs_string pre @ ''/'') (join_with ''/'' (a # rest)) s
         = (Inr (),
            s\<lparr>remote := (remote s)\<lparr>directories :=
                   chown_tree (directories (remote s)) (login_user (remote s), login_group (remote s))
                     (pre @ [a])\<rparr>,
              sent := sent s @ [''echo `id -nu`-'', ''echo `id -ng`-'',
                       chown_cmd (abs_string pre @ ''/'') (login_user (remote s))
                         (login_group (remote s)) a]\<rparr>)"
proof -
  let ?h = "remote s"
  let ?s1 = "s\<lparr>sent := sent s @ [''echo `id -nu`-'']\<rparr>"
  let ?s2 = "s\<lparr>sent := sent s @ [''echo `id -nu`-'', ''echo `id -ng`-'']\<rparr>"
  let ?x = "login_user ?h @ '':'' @ login_group ?h @ '' '' @ a"
  have a: "plain_name a" and pre: "list_all plain_name pre" using assms(2) by simp_all
  have nu: "run_string_cmd ''id -nu'' s = (Inr (login_user ?h), ?s1)"
    using assms(1,6) by (rule run_string_cmd_id_nu)
  have ng: "run_string_cmd ''id -ng'' ?s1 = (Inr (login_group ?h), ?s2)"
    using run_string_cmd_id_ng [of ?s1] assms(1,7) by simp
  have q: "CHR 0x22 \<notin> set ?x" "CHR 0x27 \<notin> set ?x"
    using assms(6,7) a plain_char_not_quote by (auto simp: list_all_iff plain_name_def)
  have "posix ?h (chown_cmd (abs_string pre @ ''/'') (login_user ?h) (login_group ?h) a)
          = run_chown ?h (abs_string pre @ ''/'') ?x"
    using existing_path_text [OF pre] q by (rule posix_chown) simp
  also have "\<dots> = Answer (ok [])
               (?h\<lparr>directories := chown_tree (directories ?h) (login_user ?h, login_group ?h) (pre @ [a])\<rparr>)"
    using pre a assms(4-7) by (rule run_chown_plain)
  finally have ch: "run_cmd (chown_cmd (abs_string pre @ ''/'') (login_user ?h) (login_group ?h) a) ?s2
      = (Inr [], ?s2\<lparr>remote := ?h\<lparr>directories := chown_tree (directories ?h) (login_user ?h, login_group ?h) (pre @ [a])\<rparr>,
                        sent := sent ?s2 @ [chown_cmd (abs_string pre @ ''/'') (login_user ?h) (login_group ?h) a]\<rparr>)"
    using assms(1) by (intro run_cmd_answer) simp_all
  show ?thesis
    unfolding set_owner_for_def Let_def first_dir_plain [OF a assms(3)]
    by (simp add: and_then_def nu ng returns_def ch)
qed


section \<open>A target that already exists\<close>

lemma dot_facts:
  "path_text ''.''" "split_on CHR ''/'' ''.'' = [''.'']" "shell_fields ''.'' = [''.'']"
  "find_char ''.'' CHR ''/'' 0 = npos" "list_all plain_char ''.''"
  by (simp_all add: path_text_def plain_char_def split_on_def shell_fields_def ifs_def
      find_char_def)

lemma make_target_dir_dot:
  assumes "transport s = posix"
    and "list_all plain_name pre" and "all_exist (directories (remote s)) pre"
  shows "make_target_dir (abs_string pre @ ''/'') ''.'' s
         = (Inr (), s\<lparr>sent := sent s @ [mkdir_cmd (abs_string pre @ ''/'') ''.'']\<rparr>)"
proof -
  let ?h = "remote s"
  have res: "resolve_from (directories ?h) (login_dir ?h) (abs_string pre @ ''/'') = Some pre"
    using assms(2,3) by (simp add: resolve_abs_slash)
  have pre: "directories ?h pre \<noteq> None"
    using assms(3) all_exist_iff [of "directories ?h" pre] by auto
  have "make_dirs (directories ?h) pre [''.''] = directories ?h"
    using pre by (auto simp: enter_def Let_def)
  then have "run_mkdir ?h (abs_string pre @ ''/'') ''.'' = Answer (ok []) ?h"
    using existing_path_text [OF assms(2)]
    by (simp add: run_mkdir_def path_text_dq_literal dot_facts res)
  then have "posix ?h (mkdir_cmd (abs_string pre @ ''/'') ''.'') = Answer (ok []) ?h"
    using existing_path_text [OF assms(2)] by (simp add: posix_mkdir dot_facts)
  then have "run_cmd (mkdir_cmd (abs_string pre @ ''/'') ''.'') s
               = (Inr [], s\<lparr>remote := ?h, sent := sent s @ [mkdir_cmd (abs_string pre @ ''/'') ''.'']\<rparr>)"
    using assms(1) by (intro run_cmd_answer)
  then show ?thesis
    by (simp add: make_target_dir_def and_then_def returns_def)
qed

lemma set_owner_for_dot:
  assumes "transport s = posix"
    and "list_all plain_name pre" and "all_exist (directories (remote s)) pre"
    and "list_all plain_char (login_user (remote s))" and "list_all plain_char (login_group (remote s))"
  shows "set_owner_for (abs_string pre @ ''/'') ''.'' s
         = (Inr (),
            s\<lparr>remote := (remote s)\<lparr>directories :=
                   chown_tree (directories (remote s)) (login_user (remote s), login_group (remote s)) pre\<rparr>,
              sent := sent s @ [''echo `id -nu`-'', ''echo `id -ng`-'',
                       chown_cmd (abs_string pre @ ''/'') (login_user (remote s))
                         (login_group (remote s)) ''.'']\<rparr>)"
proof -
  let ?h = "remote s"
  let ?s1 = "s\<lparr>sent := sent s @ [''echo `id -nu`-'']\<rparr>"
  let ?s2 = "s\<lparr>sent := sent s @ [''echo `id -nu`-'', ''echo `id -ng`-'']\<rparr>"
  let ?spec = "login_user ?h @ '':'' @ login_group ?h"
  let ?x = "?spec @ '' '' @ ''.''"
  have nu: "run_string_cmd ''id -nu'' s = (Inr (login_user ?h), ?s1)"
    using assms(1,4) by (rule run_string_cmd_id_nu)
  have ng: "run_string_cmd ''id -ng'' ?s1 = (Inr (login_group ?h), ?s2)"
    using run_string_cmd_id_ng [of ?s1] assms(1,5) by simp
  have q: "CHR 0x22 \<notin> set ?x" "CHR 0x27 \<notin> set ?x"
    using assms(4,5) plain_char_not_quote by (auto simp: list_all_iff)
  have pt: "plain_text ?x"
    using assms(4,5) by (auto simp: plain_text_def list_all_iff ifs_def plain_char_def)
  have "\<not> ifs c" if "c \<in> set (login_user ?h) \<or> c \<in> set (login_group ?h)" for c
    using that assms(4,5) plain_char_not_ifs [of c] by (auto simp: list_all_iff)
  then have "\<forall>c\<in>set ?spec. \<not> ifs c"
    by (auto simp: ifs_def)
  moreover have "\<forall>c\<in>set ''.''. \<not> ifs c" by (simp add: ifs_def)
  ultimately have f: "shell_fields ?x = [?spec, ''.'']"
    by (intro shell_fields_two) simp_all
  have pre: "directories ?h pre \<noteq> None"
    using assms(3) all_exist_iff [of "directories ?h" pre] by auto
  have res: "resolve_from (directories ?h) (login_dir ?h) (abs_string pre @ ''/'') = Some pre"
    using assms(2,3) by (simp add: resolve_abs_slash)
  have rd: "resolve_from (directories ?h) pre ''.'' = Some pre"
    using pre by (simp add: resolve_from_def dot_facts enter_def)
  have rc: "run_chown ?h (abs_string pre @ ''/'') ?x
           = Answer (ok []) (?h\<lparr>directories := chown_tree (directories ?h) (login_user ?h, login_group ?h) pre\<rparr>)"
    unfolding run_chown_def using existing_path_text [OF assms(2)] pt
    by (simp only: f path_text_dq_literal res rd) (simp add: rd)
  have "posix ?h (chown_cmd (abs_string pre @ ''/'') (login_user ?h) (login_group ?h) ''.'')
          = run_chown ?h (abs_string pre @ ''/'') ?x"
    using existing_path_text [OF assms(2)] q by (rule posix_chown) simp
  then have ch: "run_cmd (chown_cmd (abs_string pre @ ''/'') (login_user ?h) (login_group ?h) ''.'') ?s2
      = (Inr [], ?s2\<lparr>remote := ?h\<lparr>directories := chown_tree (directories ?h) (login_user ?h, login_group ?h) pre\<rparr>,
                        sent := sent ?s2 @ [chown_cmd (abs_string pre @ ''/'') (login_user ?h) (login_group ?h) ''.'']\<rparr>)"
    using assms(1) rc by (intro run_cmd_answer) simp_all
  show ?thesis
    unfolding set_owner_for_def Let_def
    by (simp add: and_then_def nu ng returns_def ch dot_facts)
qed


section \<open>The whole preparation on a POSIX host\<close>

lemma char_at_abs: "comps \<noteq> [] \<Longrightarrow> char_at (abs_string comps) 0 = CHR ''/''"
  by (cases comps) (simp_all add: char_at_def abs_string_Cons)

lemma make_sftp_server_creates:
  assumes "transport s = posix"
    and "list_all plain_name (pre @ a # rest)" and "length a < npos"
    and "all_exist (directories (remote s)) pre" and "directories (remote s) (pre @ [a]) = None"
    and "list_all plain_char (login_user (remote s))" and "list_all plain_char (login_group (remote s))"
    and "sshfs_binary (remote s) = Some b"
    and "stoi (login_uid (remote s) @ [CHR 0x0A]) = Inr uid"
    and "stoi (login_gid (remote s) @ [CHR 0x0A]) = Inr gid"
  shows "make_sftp_server source (abs_string (pre @ a # rest)) gid_map uid_map s =
    (Inr \<lparr>server_source = source, server_target = abs_string (pre @ a # rest),
           server_gid_map = gid_map, server_uid_map = uid_map,
           server_default_uid = uid, server_default_gid = gid\<rparr>,
     s\<lparr>remote := (remote s)\<lparr>directories :=
            chown_tree (make_dirs (directories (remote s)) pre (a # rest))
              (login_user (remote s), login_group (remote s)) (pre @ [a])\<rparr>,
       sent := sent s @
         [''which sshfs'',
          ''echo `'' @ find_existing_cmd (abs_string (pre @ a # rest)) @ ''`-'',
          mkdir_cmd (abs_string pre @ ''/'') (join_with ''/'' (a # rest)),
          ''echo `id -nu`-'', ''echo `id -ng`-'',
          chown_cmd (abs_string pre @ ''/'') (login_user (remote s)) (login_group (remote s)) a,
          ''id -u'', ''id -g''],
       logged := logged s @
         [(Debug, category,
           location (source_file s) ''171'' @ ''(source = '' @ source @ '', target = ''
             @ abs_string (pre @ a # rest) @ '', '' @ [CHR 0xE2, CHR 0x80, CHR 0xA6] @ ''): ''),
          (Debug, category,
           location (source_file s) ''188'' @ ''(): `id -u` = '' @ login_uid (remote s) @ [CHR 0x0A]),
          (Debug, category,
           location (source_file s) ''192'' @ ''(): `id -g` = '' @ login_gid (remote s) @ [CHR 0x0A])]\<rparr>)"
proof -
  let ?h = "remote s"
  let ?t = "abs_string (pre @ a # rest)"
  let ?R = "abs_string pre @ ''/''"
  let ?T = "join_with ''/'' (a # rest)"
  let ?og = "(login_user ?h, login_group ?h)"
  let ?D1 = "make_dirs (directories ?h) pre (a # rest)"
  let ?l1 = "(Debug, category,
           location (source_file s) ''171'' @ ''(source = '' @ source @ '', target = ''
             @ ?t @ '', '' @ [CHR 0xE2, CHR 0x80, CHR 0xA6] @ ''): '')"
  let ?s0 = "s\<lparr>logged := logged s @ [?l1]\<rparr>"
  let ?s1 = "?s0\<lparr>sent := sent s @ [''which sshfs'']\<rparr>"
  let ?s2 = "?s1\<lparr>sent := sent ?s1 @ [''echo `'' @ find_existing_cmd ?t @ ''`-'']\<rparr>"
  let ?s3 = "?s2\<lparr>remote := ?h\<lparr>directories := ?D1\<rparr>, sent := sent ?s2 @ [mkdir_cmd ?R ?T]\<rparr>"
  let ?s4 = "?s3\<lparr>remote := (remote ?s3)\<lparr>directories := chown_tree ?D1 ?og (pre @ [a])\<rparr>,
                 sent := sent ?s3 @ [''echo `id -nu`-'', ''echo `id -ng`-'',
                                     chown_cmd ?R (login_user ?h) (login_group ?h) a]\<rparr>"
  have names: "list_all plain_name pre" "plain_name a" using assms(2) by simp_all
  have c: "check_sshfs_exists ?s0 = (Inr (), ?s1)"
    using check_sshfs_exists_ok [of ?s0 b] assms(1,8) by simp
  have e: "expand_home_directory ?t ?s1 = (Inr ?t, ?s1)"
    by (rule expand_home_directory_other) (simp add: char_at_abs)
  have g: "get_path_split ?t ?s1 = (Inr (?R, ?T), ?s2)"
    using get_path_split_absolute [of ?s1 pre "a # rest"] assms(1,2,4,5) by simp
  have m: "make_target_dir ?R ?T ?s2 = (Inr (), ?s3)"
    using make_target_dir_plain [of ?s2 pre a rest] assms(1,2,4) by simp
  have d1: "all_exist ?D1 pre" using assms(4) by (rule make_dirs_all_exist)
  have d2: "?D1 (pre @ [a]) \<noteq> None"
    using make_dirs_creates [of "a # rest" 1 "directories ?h" pre] assms(2) by simp
  have o: "set_owner_for ?R ?T ?s3 = (Inr (), ?s4)"
    using set_owner_for_plain [of ?s3 pre a rest] assms(1,2,3,6,7) d1 d2 by simp
  have u: "run_cmd ''id -u'' ?s4 = (Inr (login_uid ?h @ [CHR 0x0A]), ?s4\<lparr>sent := sent ?s4 @ [''id -u'']\<rparr>)"
    using run_cmd_id_u [of ?s4] assms(1) by simp
  have gq: "run_cmd ''id -g'' s' = (Inr (login_gid ?h @ [CHR 0x0A]), s'\<lparr>sent := sent s' @ [''id -g'']\<rparr>)"
    if "transport s' = posix" and "login_gid (remote s') = login_gid ?h" for s' :: "host state"
    using run_cmd_id_g [of s'] that by simp
  show ?thesis
    unfolding make_sftp_server_def
    using assms(1,9,10) c e g m o u
    by (simp add: and_then_def log_def gq lift_def returns_def)
qed


lemma make_sftp_server_existing:
  assumes "transport s = posix"
    and "list_all plain_name comps" and "comps \<noteq> []"
    and "all_exist (directories (remote s)) comps"
    and "list_all plain_char (login_user (remote s))" and "list_all plain_char (login_group (remote s))"
    and "sshfs_binary (remote s) = Some b"
    and "stoi (login_uid (remote s) @ [CHR 0x0A]) = Inr uid"
    and "stoi (login_gid (remote s) @ [CHR 0x0A]) = Inr gid"
  shows "make_sftp_server source (abs_string comps) gid_map uid_map s =
    (Inr \<lparr>server_source = source, server_target = abs_string comps,
           server_gid_map = gid_map, server_uid_map = uid_map,
           server_default_uid = uid, server_default_gid = gid\<rparr>,
     s\<lparr>remote := (remote s)\<lparr>directories :=
            chown_tree (directories (remote s)) (login_user (remote s), login_group (remote s)) comps\<rparr>,
       sent := sent s @
         [''which sshfs'',
          ''echo `'' @ find_existing_cmd (abs_string comps) @ ''`-'',
          mkdir_cmd (abs_string comps @ ''/'') ''.'',
          ''echo `id -nu`-'', ''echo `id -ng`-'',
          chown_cmd (abs_string comps @ ''/'') (login_user (remote s)) (login_group (remote s)) ''.'',
          ''id -u'', ''id -g''],
       logged := logged s @
         [(Debug, category,
           location (source_file s) ''171'' @ ''(source = '' @ source @ '', target = ''
             @ abs_string comps @ '', '' @ [CHR 0xE2, CHR 0x80, CHR 0xA6] @ ''): ''),
          (Debug, category,
           location (source_file s) ''188'' @ ''(): `id -u` = '' @ login_uid (remote s) @ [CHR 0x0A]),
          (Debug, category,
           location (source_file s) ''192'' @ ''(): `id -g` = '' @ login_gid (remote s) @ [CHR 0x0A])]\<rparr>)"
proof -
  let ?h = "remote s"
  let ?t = "abs_string comps"
  let ?R = "abs_string comps @ ''/''"
  let ?og = "(login_user ?h, login_group ?h)"
  let ?l1 = "(Debug, category,
           location (source_file s) ''171'' @ ''(source = '' @ source @ '', target = ''
             @ ?t @ '', '' @ [CHR 0xE2, CHR 0x80, CHR 0xA6] @ ''): '')"
  let ?s0 = "s\<lparr>logged := logged s @ [?l1]\<rparr>"
  let ?s1 = "?s0\<lparr>sent := sent s @ [''which sshfs'']\<rparr>"
  let ?s2 = "?s1\<lparr>sent := sent ?s1 @ [''echo `'' @ find_existing_cmd ?t @ ''`-'']\<rparr>"
  let ?s3 = "?s2\<lparr>sent := sent ?s2 @ [mkdir_cmd ?R ''.'']\<rparr>"
  let ?s4 = "?s3\<lparr>remote := ?h\<lparr>directories := chown_tree (directories ?h) ?og comps\<rparr>,
                 sent := sent ?s3 @ [''echo `id -nu`-'', ''echo `id -ng`-'',
                                     chown_cmd ?R (login_user ?h) (login_group ?h) ''.'']\<rparr>"
  have c: "check_sshfs_exists ?s0 = (Inr (), ?s1)"
    using check_sshfs_exists_ok [of ?s0 b] assms(1,7) by simp
  have e: "expand_home_directory ?t ?s1 = (Inr ?t, ?s1)"
    using assms(3) by (intro expand_home_directory_other) (simp add: char_at_abs)
  have g: "get_path_split ?t ?s1 = (Inr (?R, ''.''), ?s2)"
    using get_path_split_absolute [of ?s1 comps "[]"] assms(1,2,3,4) by simp
  have m: "make_target_dir ?R ''.'' ?s2 = (Inr (), ?s3)"
    using make_target_dir_dot [of ?s2 comps] assms(1,2,4) by simp
  have o: "set_owner_for ?R ''.'' ?s3 = (Inr (), ?s4)"
    using set_owner_for_dot [of ?s3 comps] assms(1,2,4,5,6) by simp
  have u: "run_cmd ''id -u'' ?s4 = (Inr (login_uid ?h @ [CHR 0x0A]), ?s4\<lparr>sent := sent ?s4 @ [''id -u'']\<rparr>)"
    using run_cmd_id_u [of ?s4] assms(1) by simp
  have gq: "run_cmd ''id -g'' s' = (Inr (login_gid ?h @ [CHR 0x0A]), s'\<lparr>sent := sent s' @ [''id -g'']\<rparr>)"
    if "transport s' = posix" and "login_gid (remote s') = login_gid ?h" for s' :: "host state"
    using run_cmd_id_g [of s'] that by simp
  show ?thesis
    unfolding make_sftp_server_def
    using assms(1,8,9) c e g m o u
    by (simp add: and_then_def log_def gq lift_def returns_def)
qed

lemma chown_tree_dom: "chown_tree ds og base p \<noteq> None \<longleftrightarrow> ds p \<noteq> None"
  by (simp add: chown_tree_def)

lemma all_exist_after:
  assumes "list_all plain_name (a # rest)" and "all_exist ds pre"
  shows "all_exist (chown_tree (make_dirs ds pre (a # rest)) og (pre @ [a])) (pre @ a # rest)"
proof -
  let ?D = "make_dirs ds pre (a # rest)"
  have "?D (take k (pre @ a # rest)) \<noteq> None" if "k \<le> length (pre @ a # rest)" for k
  proof (cases "k \<le> length pre")
    case True
    then have "ds (take k pre) \<noteq> None"
      using assms(2) all_exist_iff [of ds pre] by blast
    then have "?D (take k pre) \<noteq> None" using make_dirs_keeps [of ds "take k pre" pre "a # rest"] by metis
    then show ?thesis using True by simp
  next
    case False
    then have "take k (pre @ a # rest) = pre @ take (k - length pre) (a # rest)" by simp
    moreover have "?D (pre @ take (k - length pre) (a # rest)) \<noteq> None"
      using assms(1) False that by (intro make_dirs_creates) simp_all
    ultimately show ?thesis by simp
  qed
  then show ?thesis
    unfolding all_exist_iff chown_tree_dom by blast
qed


section \<open>The example host\<close>

lemma vm_session: "transport (fresh posix vm) = posix" "remote (fresh posix vm) = vm"
  "sent (fresh posix vm) = []"
  by (simp_all add: fresh_def)

lemma vm_names:
  "plain_name ''r''" "plain_name ''a''" "plain_name ''b''" "plain_name ''c''"
  "plain_name ''home''" "plain_name ''ubuntu''" "plain_name ''x''" "plain_name ''y''"
  by (simp_all add: plain_name_def plain_char_def)

lemma vm_host:
  "directories vm [] = Some (''root'', ''root'')"
  "directories vm [''r''] = Some (''root'', ''root'')"
  "directories vm [''r'', ''a''] = None"
  "directories vm [''home'', ''ubuntu'', ''x''] = None"
  "all_exist (directories vm) []"
  "all_exist (directories vm) [''r'']"
  "all_exist (directories vm) [''home'', ''ubuntu'']"
  "login_dir vm = [''home'', ''ubuntu'']"
  "login_user vm = ''ubuntu''" "login_group vm = ''ubuntu''"
  "list_all plain_char ''ubuntu''"
  "sshfs_binary vm = Some ''/usr/bin/sshfs''"
  "login_uid vm = ''1000''" "login_gid vm = ''1000''"
  by (simp_all add: vm_def all_exist_def plain_char_def)

lemma stoi_1000: "stoi (''1000'' @ [CHR 0x0A]) = Inr 1000"
  by (simp add: stoi_def isspace_def isdigit_def digits_value_def Let_def)

lemma small_length: "length ''a'' < npos"
  by (simp add: npos_def)

section \<open>Ownership of what the preparation creates\<close>

text \<open>
  C6. The target is \<open>pre\<close>, an existing directory, followed by the missing segment \<open>a\<close> and
  the further segments \<open>rest\<close> (for the target \<^verbatim>\<open>/r/a/b/c\<close>: \<open>pre\<close> is \<^verbatim>\<open>/r\<close> and \<open>rest\<close> is
  \<^verbatim>\<open>b/c\<close>). The preparation succeeds; it sends one \<^verbatim>\<open>chown -R\<close>, for the segment \<open>a\<close> under
  \<open>pre\<close>. Afterwards \<open>pre/a\<close> and every directory created below it exist and belong to the
  connecting user and group, as does everything else that exists below \<open>pre/a\<close>, and every
  path outside \<open>pre/a\<close>, \<open>pre\<close> itself among them, has the owner it had before.
\<close>

theorem make_sftp_server_owns_first_missing_segment:
  assumes "transport s = posix"
    and "list_all plain_name (pre @ a # rest)" and "length a < npos"
    and "all_exist (directories (remote s)) pre" and "directories (remote s) (pre @ [a]) = None"
    and "list_all plain_char (login_user (remote s))" and "list_all plain_char (login_group (remote s))"
    and "sshfs_binary (remote s) = Some b"
    and "stoi (login_uid (remote s) @ [CHR 0x0A]) = Inr uid"
    and "stoi (login_gid (remote s) @ [CHR 0x0A]) = Inr gid"
  shows "\<exists>srv s'.
           make_sftp_server source (abs_string (pre @ a # rest)) gid_map uid_map s = (Inr srv, s')
         \<and> sent s' = sent s @
              [''which sshfs'',
               ''echo `'' @ find_existing_cmd (abs_string (pre @ a # rest)) @ ''`-'',
               mkdir_cmd (abs_string pre @ ''/'') (join_with ''/'' (a # rest)),
               ''echo `id -nu`-'', ''echo `id -ng`-'',
               chown_cmd (abs_string pre @ ''/'') (login_user (remote s)) (login_group (remote s)) a,
               ''id -u'', ''id -g'']
         \<and> (\<forall>k\<le>length rest. directories (remote s') (pre @ a # take k rest)
                = Some (login_user (remote s), login_group (remote s)))
         \<and> (\<forall>p. prefix (pre @ [a]) p \<and> directories (remote s') p \<noteq> None
                \<longrightarrow> directories (remote s') p = Some (login_user (remote s), login_group (remote s)))
         \<and> (\<forall>p. \<not> prefix (pre @ [a]) p \<longrightarrow> directories (remote s') p = directories (remote s) p)"
proof -
  let ?og = "(login_user (remote s), login_group (remote s))"
  let ?D1 = "make_dirs (directories (remote s)) pre (a # rest)"
  let ?D2 = "chown_tree ?D1 ?og (pre @ [a])"
  have names: "list_all plain_name (a # rest)" using assms(2) by simp
  have created: "?D2 (pre @ a # take k rest) = Some ?og" if "k \<le> length rest" for k
  proof -
    have "?D1 (pre @ take (Suc k) (a # rest)) \<noteq> None"
      using names that by (intro make_dirs_creates) simp_all
    then have "?D1 (pre @ a # take k rest) \<noteq> None" by simp
    moreover have "prefix (pre @ [a]) (pre @ a # take k rest)" by simp
    ultimately show ?thesis unfolding chown_tree_def by auto
  qed
  have inside: "?D2 p = Some ?og" if "prefix (pre @ [a]) p" and "?D2 p \<noteq> None" for p
    using that unfolding chown_tree_def by auto
  have outside: "?D2 p = directories (remote s) p" if "\<not> prefix (pre @ [a]) p" for p
  proof -
    have "?D1 p = directories (remote s) p"
      using names that by (rule make_dirs_outside)
    then show ?thesis using that unfolding chown_tree_def by simp
  qed
  define s' where "s' = snd (make_sftp_server source (abs_string (pre @ a # rest)) gid_map uid_map s)"
  define srv where "srv = \<lparr>server_source = source, server_target = abs_string (pre @ a # rest),
           server_gid_map = gid_map, server_uid_map = uid_map,
           server_default_uid = uid, server_default_gid = gid\<rparr>"
  have run: "make_sftp_server source (abs_string (pre @ a # rest)) gid_map uid_map s = (Inr srv, s')"
    unfolding s'_def srv_def make_sftp_server_creates [OF assms] by simp
  have dirs: "directories (remote s') = ?D2"
    unfolding s'_def make_sftp_server_creates [OF assms] by simp
  have cmds: "sent s' = sent s @
              [''which sshfs'',
               ''echo `'' @ find_existing_cmd (abs_string (pre @ a # rest)) @ ''`-'',
               mkdir_cmd (abs_string pre @ ''/'') (join_with ''/'' (a # rest)),
               ''echo `id -nu`-'', ''echo `id -ng`-'',
               chown_cmd (abs_string pre @ ''/'') (login_user (remote s)) (login_group (remote s)) a,
               ''id -u'', ''id -g'']"
    unfolding s'_def make_sftp_server_creates [OF assms] by simp
  show ?thesis
    unfolding dirs [symmetric]
    using run cmds created inside outside unfolding dirs [symmetric] by blast
qed

theorem make_sftp_server_owns_first_missing_segment_witness:
  "\<exists>srv s'.
     make_sftp_server ''/src'' ''/r/a/b/c'' Map.empty Map.empty (fresh posix vm) = (Inr srv, s')
   \<and> directories (remote s') [''r'', ''a''] = Some (''ubuntu'', ''ubuntu'')
   \<and> directories (remote s') [''r'', ''a'', ''b''] = Some (''ubuntu'', ''ubuntu'')
   \<and> directories (remote s') [''r'', ''a'', ''b'', ''c''] = Some (''ubuntu'', ''ubuntu'')
   \<and> directories (remote s') [''r''] = Some (''root'', ''root'')
   \<and> directories (remote s') [] = Some (''root'', ''root'')"
proof -
  let ?s = "fresh posix vm"
  have t: "abs_string ([''r''] @ ''a'' # [''b'', ''c'']) = ''/r/a/b/c''"
    by (simp add: abs_string_def)
  have h1: "transport ?s = posix" by (rule vm_session)
  have h2: "list_all plain_name ([''r''] @ ''a'' # [''b'', ''c''])" by (simp add: vm_names)
  have h3: "length ''a'' < npos" by (rule small_length)
  have h4: "all_exist (directories (remote ?s)) [''r'']" by (simp only: vm_session vm_host)
  have h5: "directories (remote ?s) ([''r''] @ [''a'']) = None" by (simp add: vm_session vm_host)
  have h6: "list_all plain_char (login_user (remote ?s))" by (simp only: vm_session vm_host)
  have h7: "list_all plain_char (login_group (remote ?s))" by (simp only: vm_session vm_host)
  have h8: "sshfs_binary (remote ?s) = Some ''/usr/bin/sshfs''" by (simp only: vm_session vm_host)
  have h9: "stoi (login_uid (remote ?s) @ [CHR 0x0A]) = Inr 1000"
    by (simp only: vm_session vm_host stoi_1000)
  have h10: "stoi (login_gid (remote ?s) @ [CHR 0x0A]) = Inr 1000"
    by (simp only: vm_session vm_host stoi_1000)
  obtain srv s' where r:
    "make_sftp_server ''/src'' ''/r/a/b/c'' Map.empty Map.empty ?s = (Inr srv, s')"
    "\<forall>k\<le>length [''b'', ''c'']. directories (remote s') ([''r''] @ ''a'' # take k [''b'', ''c''])
        = Some (login_user (remote ?s), login_group (remote ?s))"
    "\<forall>p. \<not> prefix ([''r''] @ [''a'']) p \<longrightarrow> directories (remote s') p = directories (remote ?s) p"
    using make_sftp_server_owns_first_missing_segment
      [OF h1 h2 h3 h4 h5 h6 h7 h8 h9 h10, of "''/src''" Map.empty Map.empty]
    unfolding t by blast
  have "directories (remote s') [''r'', ''a''] = Some (''ubuntu'', ''ubuntu'')"
    using r(2) [rule_format, of 0] by (simp add: vm_session vm_host)
  moreover have "directories (remote s') [''r'', ''a'', ''b''] = Some (''ubuntu'', ''ubuntu'')"
    using r(2) [rule_format, of 1] by (simp add: vm_session vm_host)
  moreover have "directories (remote s') [''r'', ''a'', ''b'', ''c''] = Some (''ubuntu'', ''ubuntu'')"
    using r(2) [rule_format, of 2] by (simp add: vm_session vm_host)
  moreover have "directories (remote s') [''r''] = Some (''root'', ''root'')"
    using r(3) [rule_format, of "[''r'']"] by (simp add: vm_session vm_host)
  moreover have "directories (remote s') [] = Some (''root'', ''root'')"
    using r(3) [rule_format, of "[]"] by (simp add: vm_session vm_host)
  ultimately show ?thesis using r(1) by blast
qed


section \<open>The split of a target that exists\<close>

text \<open>
  \<^verbatim>\<open>get_path_split\<close> hands back \<^verbatim>\<open>QDir(existing).relativeFilePath(absolute)\<close> as it is
  (line 141). When the whole path exists, \<open>existing\<close> is the target followed by a slash, and
  the path of a directory relative to itself is \<^verbatim>\<open>"."\<close>: this is what every absolute target
  made of plain segments gets as its missing part when it exists as a directory.
\<close>

lemma get_path_split_existing_target:
  assumes "transport s = posix"
    and "list_all plain_name comps" and "comps \<noteq> []"
    and "all_exist (directories (remote s)) comps"
  shows "fst (get_path_split (abs_string comps) s) = Inr (abs_string comps @ ''/'', ''.'')"
  using get_path_split_absolute [of s comps "[]"] assms by simp

lemma get_path_split_existing_home:
  "fst (get_path_split ''/home/ubuntu'' (fresh posix vm)) = Inr (''/home/ubuntu/'', ''.'')"
proof -
  have h2: "list_all plain_name [''home'', ''ubuntu'']" by (simp add: vm_names)
  have h4: "all_exist (directories (remote (fresh posix vm))) [''home'', ''ubuntu'']"
    by (simp only: vm_session vm_host)
  show ?thesis
    using get_path_split_existing_target [OF vm_session(1) h2 _ h4]
    by (simp add: abs_string_def)
qed

text \<open>
  C2. The claim: for an absolute target whose full path already exists, the split returns
  the empty string as the missing part and the target with a trailing slash as the existing
  part. The code: \<^verbatim>\<open>/r\<close> exists on the example host, the existing part returned for it is
  \<^verbatim>\<open>/r/\<close>, as claimed, but the missing part is \<^verbatim>\<open>"."\<close>, not the empty string. The empty
  string is what the code itself expects here: the guard of \<^verbatim>\<open>make_target_dir\<close> (line 147)
  skips the creation for an empty \<^verbatim>\<open>relative_target\<close> only, so the value the split returns
  for a target with nothing missing is not the one the caller tests for.
\<close>

theorem get_path_split_existing_counterexample:
  "test_d vm ''/r/'' \<and> fst (get_path_split ''/r'' (fresh posix vm)) = Inr (''/r/'', ''.'')
   \<and> fst (get_path_split ''/r'' (fresh posix vm)) \<noteq> Inr (''/r/'', [])"
proof -
  have h2: "list_all plain_name ([''r''] @ [])" by (simp add: vm_names)
  have h4: "all_exist (directories (remote (fresh posix vm))) [''r'']"
    by (simp only: vm_session vm_host)
  have "test_d vm (abs_string [''r''] @ ''/'')"
    using test_d_abs [of "[''r'']" vm] by (simp add: vm_names vm_host)
  moreover have "fst (get_path_split (abs_string ([''r''] @ [])) (fresh posix vm))
                   = Inr (abs_string [''r''] @ ''/'', ''.'')"
    using get_path_split_absolute [OF vm_session(1) h2 _ h4] by simp
  ultimately show ?thesis by (simp add: abs_string_def)
qed

section \<open>Preparing the same target twice\<close>

text \<open>
  Were the missing part empty, \<^verbatim>\<open>make_target_dir\<close> would send nothing, but
  \<^verbatim>\<open>set_owner_for\<close>, which has no such guard, would send \<^verbatim>\<open>chown -R\<close> without an
  operand and throw what \<^verbatim>\<open>chown\<close> answers.
\<close>

lemma shell_fields_trailing_space:
  assumes "\<forall>c\<in>set u. \<not> ifs c" and "u \<noteq> []"
  shows "shell_fields (u @ '' '') = [u]"
proof -
  have "split_where ifs (u @ CHR '' '' # []) = u # split_where ifs []"
    using assms(1) by (intro split_where_first) (simp_all add: ifs_def)
  then show ?thesis using assms(2) by (simp add: shell_fields_def)
qed

lemma set_owner_for_nothing:
  assumes "transport s = posix"
    and "list_all plain_name pre" and "all_exist (directories (remote s)) pre"
    and "list_all plain_char (login_user (remote s))" and "list_all plain_char (login_group (remote s))"
  shows "fst (set_owner_for (abs_string pre @ ''/'') [] s)
           = Inl (RuntimeError (''chown: missing operand after ''
                                  @ login_user (remote s) @ '':'' @ login_group (remote s)))"
proof -
  let ?h = "remote s"
  let ?s1 = "s\<lparr>sent := sent s @ [''echo `id -nu`-'']\<rparr>"
  let ?s2 = "s\<lparr>sent := sent s @ [''echo `id -nu`-'', ''echo `id -ng`-'']\<rparr>"
  let ?spec = "login_user ?h @ '':'' @ login_group ?h"
  let ?x = "?spec @ '' '' @ []"
  let ?cmd = "chown_cmd (abs_string pre @ ''/'') (login_user ?h) (login_group ?h) []"
  have nu: "run_string_cmd ''id -nu'' s = (Inr (login_user ?h), ?s1)"
    using assms(1,4) by (rule run_string_cmd_id_nu)
  have ng: "run_string_cmd ''id -ng'' ?s1 = (Inr (login_group ?h), ?s2)"
    using run_string_cmd_id_ng [of ?s1] assms(1,5) by simp
  have q: "CHR 0x22 \<notin> set ?x" "CHR 0x27 \<notin> set ?x"
    using assms(4,5) plain_char_not_quote by (auto simp: list_all_iff)
  have pt: "plain_text ?x"
    using assms(4,5) by (auto simp: plain_text_def list_all_iff ifs_def)
  have "\<not> ifs c" if "c \<in> set (login_user ?h) \<or> c \<in> set (login_group ?h)" for c
    using that assms(4,5) plain_char_not_ifs [of c] by (auto simp: list_all_iff)
  then have "\<forall>c\<in>set ?spec. \<not> ifs c"
    by (auto simp: ifs_def)
  then have f: "shell_fields ?x = [?spec]"
    using shell_fields_trailing_space [of ?spec] by simp
  have res: "resolve_from (directories ?h) (login_dir ?h) (abs_string pre @ ''/'') = Some pre"
    using assms(2,3) by (simp add: resolve_abs_slash)
  have rc: "run_chown ?h (abs_string pre @ ''/'') ?x
              = Answer (failed 1 (''chown: missing operand after '' @ ?spec)) ?h"
    unfolding run_chown_def using existing_path_text [OF assms(2)] pt
    by (simp only: f path_text_dq_literal res) simp
  have "posix ?h ?cmd = run_chown ?h (abs_string pre @ ''/'') ?x"
    using existing_path_text [OF assms(2)] q by (rule posix_chown) simp
  then have "transport ?s2 (remote ?s2) ?cmd = Answer (failed 1 (''chown: missing operand after '' @ ?spec)) ?h"
    using assms(1) rc by simp
  then have ch: "run_cmd ?cmd ?s2
      = (Inl (RuntimeError (std_error (failed 1 (''chown: missing operand after '' @ ?spec)))),
         ?s2\<lparr>remote := ?h, sent := sent ?s2 @ [?cmd]\<rparr>)"
    by (rule run_cmd_fail) (simp add: failed_def)
  have fd: "find_char [] CHR ''/'' 0 = npos" by (simp add: find_char_def)
  show ?thesis
    unfolding set_owner_for_def Let_def fd
    using nu ng ch by (simp add: and_then_def returns_def failed_def)
qed


text \<open>
  C3. On the example host the target \<^verbatim>\<open>/r/a/b/c\<close> is prepared twice, the second time on
  the host as the first run left it. Both runs succeed. In the second run the split returns
  \<^verbatim>\<open>"."\<close> as the missing part; it is not empty, so \<^verbatim>\<open>make_target_dir\<close> sends
  \<^verbatim>\<open>mkdir -p "."\<close> and \<^verbatim>\<open>set_owner_for\<close> sends \<^verbatim>\<open>chown -R\<close> for \<^verbatim>\<open>.\<close> in the
  target directory.
\<close>

theorem second_run_sends_mkdir:
  "\<exists>srv1 s1 srv2 s2.
      make_sftp_server ''/src'' ''/r/a/b/c'' Map.empty Map.empty (fresh posix vm) = (Inr srv1, s1)
    \<and> make_sftp_server ''/src'' ''/r/a/b/c'' Map.empty Map.empty (fresh posix (remote s1)) = (Inr srv2, s2)
    \<and> fst (get_path_split ''/r/a/b/c'' (fresh posix (remote s1))) = Inr (''/r/a/b/c/'', ''.'')
    \<and> sent s2 =
         [''which sshfs'',
          ''echo `'' @ find_existing_cmd ''/r/a/b/c'' @ ''`-'',
          mkdir_cmd ''/r/a/b/c/'' ''.'',
          ''echo `id -nu`-'', ''echo `id -ng`-'',
          chown_cmd ''/r/a/b/c/'' ''ubuntu'' ''ubuntu'' ''.'',
          ''id -u'', ''id -g'']"
proof -
  let ?s = "fresh posix vm"
  let ?comps = "[''r'', ''a'', ''b'', ''c'']"
  let ?D = "chown_tree (make_dirs (directories vm) [''r''] (''a'' # [''b'', ''c'']))
              (''ubuntu'', ''ubuntu'') ([''r''] @ [''a''])"
  let ?h1 = "vm\<lparr>directories := ?D\<rparr>"
  let ?t = "fresh posix ?h1"
  have t: "abs_string ([''r''] @ ''a'' # [''b'', ''c'']) = ''/r/a/b/c''" "abs_string ?comps = ''/r/a/b/c''"
    by (simp_all add: abs_string_def)
  have h1: "transport ?s = posix" by (rule vm_session)
  have h2: "list_all plain_name ([''r''] @ ''a'' # [''b'', ''c''])" by (simp add: vm_names)
  have h3: "length ''a'' < npos" by (rule small_length)
  have h4: "all_exist (directories (remote ?s)) [''r'']" by (simp only: vm_session vm_host)
  have h5: "directories (remote ?s) ([''r''] @ [''a'']) = None" by (simp add: vm_session vm_host)
  have h6: "list_all plain_char (login_user (remote ?s))" by (simp only: vm_session vm_host)
  have h7: "list_all plain_char (login_group (remote ?s))" by (simp only: vm_session vm_host)
  have h8: "sshfs_binary (remote ?s) = Some ''/usr/bin/sshfs''" by (simp only: vm_session vm_host)
  have h9: "stoi (login_uid (remote ?s) @ [CHR 0x0A]) = Inr 1000"
    by (simp only: vm_session vm_host stoi_1000)
  have h10: "stoi (login_gid (remote ?s) @ [CHR 0x0A]) = Inr 1000"
    by (simp only: vm_session vm_host stoi_1000)
  note first = make_sftp_server_creates [OF h1 h2 h3 h4 h5 h6 h7 h8 h9 h10, of "''/src''" Map.empty Map.empty]
  have r1: "remote (snd (make_sftp_server ''/src'' ''/r/a/b/c'' Map.empty Map.empty ?s)) = ?h1"
    unfolding first [unfolded t] by (simp add: vm_session vm_host del: make_dirs.simps)
  have k1: "transport ?t = posix" "remote ?t = ?h1" "sent ?t = []"
    by (simp_all add: fresh_def del: make_dirs.simps)
  have k2: "list_all plain_name ?comps" by (simp add: vm_names)
  have "all_exist ?D ([''r''] @ ''a'' # [''b'', ''c''])"
    by (rule all_exist_after) (simp_all add: vm_names vm_host)
  then have k4: "all_exist (directories (remote ?t)) ?comps" by (simp add: fresh_def del: make_dirs.simps)
  have k6: "list_all plain_char (login_user (remote ?t))" "list_all plain_char (login_group (remote ?t))"
    by (simp_all add: fresh_def vm_host plain_char_def del: make_dirs.simps)
  have k8: "sshfs_binary (remote ?t) = Some ''/usr/bin/sshfs''" by (simp add: fresh_def vm_host del: make_dirs.simps)
  have k9: "stoi (login_uid (remote ?t) @ [CHR 0x0A]) = Inr 1000"
           "stoi (login_gid (remote ?t) @ [CHR 0x0A]) = Inr 1000"
    using stoi_1000 by (simp_all add: fresh_def vm_host del: make_dirs.simps)
  note second = make_sftp_server_existing [OF k1(1) k2 _ k4 k6 k8 k9, of "''/src''" Map.empty Map.empty]
  have split: "fst (get_path_split ''/r/a/b/c'' ?t) = Inr (''/r/a/b/c/'', ''.'')"
    using get_path_split_absolute [of ?t ?comps "[]"] k1(1) k2 k4 by (simp add: abs_string_def del: make_dirs.simps)
  have s2: "sent (snd (make_sftp_server ''/src'' ''/r/a/b/c'' Map.empty Map.empty ?t)) =
         [''which sshfs'',
          ''echo `'' @ find_existing_cmd ''/r/a/b/c'' @ ''`-'',
          mkdir_cmd ''/r/a/b/c/'' ''.'',
          ''echo `id -nu`-'', ''echo `id -ng`-'',
          chown_cmd ''/r/a/b/c/'' ''ubuntu'' ''ubuntu'' ''.'',
          ''id -u'', ''id -g'']"
    using second by (simp add: fresh_def vm_host abs_string_def del: make_dirs.simps)
  have ok1: "\<exists>srv. fst (make_sftp_server ''/src'' ''/r/a/b/c'' Map.empty Map.empty ?s) = Inr srv"
    unfolding first [unfolded t] by simp
  have ok2: "\<exists>srv. fst (make_sftp_server ''/src'' ''/r/a/b/c'' Map.empty Map.empty ?t) = Inr srv"
    using second by (simp add: abs_string_def del: make_dirs.simps)
  show ?thesis
    using ok1 ok2 r1 split s2 by (metis prod.collapse)
qed


section \<open>The invariant of the path split\<close>

lemma existing_shape:
  "abs_string pre @ ''/'' \<noteq> [] \<and> hd (abs_string pre @ ''/'') = CHR ''/''
   \<and> last (abs_string pre @ ''/'') = CHR ''/''"
  by (cases pre) (simp_all add: abs_string_Nil abs_string_Cons)

lemma split_of_plain_path:
  assumes "transport s = posix" and "directories (remote s) [] \<noteq> None"
    and "list_all plain_name full" and "full \<noteq> []"
    and "\<And>pre rest. full = pre @ rest \<Longrightarrow> all_exist (directories (remote s)) pre \<Longrightarrow>
           (rest \<noteq> [] \<longrightarrow> directories (remote s) (pre @ [hd rest]) = None) \<Longrightarrow>
           \<exists>s'. split s = (Inr (abs_string pre @ ''/'', if rest = [] then ''.'' else join_with ''/'' rest), s')
                \<and> remote s' = remote s"
  shows "\<exists>existing missing s'.
           split s = (Inr (existing, missing), s')
         \<and> remote s' = remote s
         \<and> existing \<noteq> [] \<and> hd existing = CHR ''/'' \<and> last existing = CHR ''/''
         \<and> test_d (remote s) existing
         \<and> missing \<noteq> []
         \<and> cleanPath (existing @ missing) = abs_string full"
proof -
  obtain pre rest where d: "full = pre @ rest" "all_exist (directories (remote s)) pre"
      "rest \<noteq> [] \<longrightarrow> directories (remote s) (pre @ [hd rest]) = None"
    using first_missing [of "directories (remote s)" full] assms(2) by blast
  let ?existing = "abs_string pre @ ''/''"
  let ?missing = "if rest = [] then ''.'' else join_with ''/'' rest"
  obtain s' where r: "split s = (Inr (?existing, ?missing), s')" "remote s' = remote s"
    using assms(5) [OF d] by blast
  have names: "list_all plain_name (pre @ rest)" "pre @ rest \<noteq> []"
    using assms(3,4) d(1) by simp_all
  have t: "test_d (remote s) ?existing"
    using names(1) d(2) by (simp add: test_d_abs)
  have m: "?missing \<noteq> []"
    using names(1) by (simp add: join_eq_Nil)
  have j: "cleanPath (?existing @ ?missing) = abs_string full"
    unfolding d(1) using names by (rule rejoin)
  show ?thesis
    using r t m j existing_shape [of pre] by blast
qed

text \<open>
  Where the search script reaches the shell as the code means it to, the split does what
  it is there for. For a target made of plain segments, absolute or relative to a login
  directory made of plain segments, on a host whose root directory exists: the split
  returns, leaving the host as it was, an \<open>existing\<close> part that is not empty, starts and
  ends with a slash and names an existing directory, and a \<open>missing\<close> part that is not
  empty (it is \<^verbatim>\<open>"."\<close> when nothing is missing); \<open>existing\<close> followed by \<open>missing\<close> is,
  once cleaned, the absolute target.
\<close>

lemma get_path_split_plain_target:
  assumes "transport s = posix" and "directories (remote s) [] \<noteq> None"
    and "list_all plain_name comps" and "comps \<noteq> []"
    and "relative \<longrightarrow> list_all plain_name (login_dir (remote s)) \<and> login_dir (remote s) \<noteq> []"
  shows "\<exists>existing missing s'.
           get_path_split (if relative then join_with ''/'' comps else abs_string comps) s
             = (Inr (existing, missing), s')
         \<and> remote s' = remote s
         \<and> existing \<noteq> [] \<and> hd existing = CHR ''/'' \<and> last existing = CHR ''/''
         \<and> test_d (remote s) existing
         \<and> missing \<noteq> []
         \<and> cleanPath (existing @ missing)
              = (if relative then abs_string (login_dir (remote s) @ comps) else abs_string comps)"
proof (cases relative)
  case False
  have "\<exists>s'. get_path_split (abs_string comps) s
                = (Inr (abs_string pre @ ''/'', if rest = [] then ''.'' else join_with ''/'' rest), s')
              \<and> remote s' = remote s"
    if "comps = pre @ rest" "all_exist (directories (remote s)) pre"
       "rest \<noteq> [] \<longrightarrow> directories (remote s) (pre @ [hd rest]) = None" for pre rest
    using get_path_split_absolute [of s pre rest] assms(1,3,4) that by simp
  then show ?thesis
    using split_of_plain_path [of s comps "get_path_split (abs_string comps)"] assms(1-4) False
    by simp
next
  case True
  let ?L = "login_dir (remote s)"
  have L: "list_all plain_name ?L" "?L \<noteq> []" using assms(5) True by simp_all
  have "\<exists>s'. get_path_split (join_with ''/'' comps) s
                = (Inr (abs_string pre @ ''/'', if rest = [] then ''.'' else join_with ''/'' rest), s')
              \<and> remote s' = remote s"
    if "?L @ comps = pre @ rest" "all_exist (directories (remote s)) pre"
       "rest \<noteq> [] \<longrightarrow> directories (remote s) (pre @ [hd rest]) = None" for pre rest
    using get_path_split_relative [of s comps pre rest] assms(1,3,4) L that by simp
  then show ?thesis
    using split_of_plain_path [of s "?L @ comps" "get_path_split (join_with ''/'' comps)"]
      assms(1-4) L True
    by simp
qed

lemma get_path_split_plain_examples:
  "(\<exists>existing missing s'.
      get_path_split ''/r/a/b/c'' (fresh posix vm) = (Inr (existing, missing), s')
    \<and> existing \<noteq> [] \<and> hd existing = CHR ''/'' \<and> last existing = CHR ''/''
    \<and> test_d vm existing \<and> cleanPath (existing @ missing) = ''/r/a/b/c'')
 \<and> (\<exists>existing missing s'.
      get_path_split ''x/y'' (fresh posix vm) = (Inr (existing, missing), s')
    \<and> existing \<noteq> [] \<and> hd existing = CHR ''/'' \<and> last existing = CHR ''/''
    \<and> test_d vm existing \<and> cleanPath (existing @ missing) = ''/home/ubuntu/x/y'')"
proof -
  let ?s = "fresh posix vm"
  have h1: "transport ?s = posix" by (rule vm_session)
  have h2: "directories (remote ?s) [] \<noteq> None" by (simp add: vm_session vm_host)
  have a3: "list_all plain_name [''r'', ''a'', ''b'', ''c'']" by (simp add: vm_names)
  have r3: "list_all plain_name [''x'', ''y'']" by (simp add: vm_names)
  have a5: "False \<longrightarrow> list_all plain_name (login_dir (remote ?s)) \<and> login_dir (remote ?s) \<noteq> []"
    by simp
  have r5: "True \<longrightarrow> list_all plain_name (login_dir (remote ?s)) \<and> login_dir (remote ?s) \<noteq> []"
    by (simp add: vm_session vm_host vm_names)
  show ?thesis
    using get_path_split_plain_target [OF h1 h2 a3 _ a5] get_path_split_plain_target [OF h1 h2 r3 _ r5]
    by (simp add: abs_string_def vm_session vm_host) blast
qed

text \<open>
  C1. The claim: for every target, the existing part returned by the split is not empty,
  is absolute and ends with a slash (at worst it is the root), and joined with the missing
  part it gives the absolute target. The code: the search script puts the target between
  double quotes (line 139), so it means to hand the target to the shell literally, but it
  does not escape a double quote inside the target. For the target \<^verbatim>\<open>/a"b\<close> that quote ends
  the quoted assignment early, bash rejects the script, the wrapped command prints the
  sentinel alone, and the split succeeds with an empty existing part: neither absolute nor
  ending with a slash, and joined with the missing part it gives \<^verbatim>\<open>a"b\<close>, not the target.
\<close>

theorem get_path_split_quote_counterexample:
  \<open>fst (get_path_split ''/a"b'' (fresh posix vm)) = Inr ([], ''a"b'')\<close>
proof -
  let ?s = "fresh posix vm"
  let ?script = \<open>''P="'' @ ''/a"b'' @ ''"; while [ ! -d "$P/" ]; do P=${P%/*}; done; echo $P/''\<close>
  have b: "bash vm ?script = Answer (failed 2 ''syntax error: unexpected end of file'') vm"
    by (simp add: bash_def unterminated_dquote_def)
  have q: "CHR 0x27 \<notin> set ?script" by simp
  have c: \<open>command vm (find_existing_cmd ''/a"b'')
             = Answer (failed 2 ''syntax error: unexpected end of file'') vm\<close>
    unfolding find_existing_cmd_shape command_sudo [OF q] by (rule b)
  have w: \<open>CHR ''`'' \<notin> set (find_existing_cmd ''/a"b'')\<close> \<open>CHR 0x5C \<notin> set (find_existing_cmd ''/a"b'')\<close>
    by (simp_all add: find_existing_cmd_def)
  have p: \<open>posix vm (''echo `'' @ find_existing_cmd ''/a"b'' @ ''`-'')
             = Answer \<lparr>exit_code = 0, std_output = ''-'' @ [CHR 0x0A],
                       std_error = ''syntax error: unexpected end of file''\<rparr> vm\<close>
    unfolding posix_wrapped [OF w] c
    by (simp add: failed_def chomp_def plain_text_def shell_fields_def ifs_def echo_prints_all_def
        echo_def)
  have r: \<open>run_string_cmd (find_existing_cmd ''/a"b'') ?s
             = (Inr [], ?s\<lparr>remote := vm, sent := sent ?s @ [''echo `'' @ find_existing_cmd ''/a"b'' @ ''`-'']\<rparr>)\<close>
    using run_string_cmd_ok [of ?s \<open>find_existing_cmd ''/a"b''\<close>, OF _ _] p
    by (simp add: vm_session trim_end_def isspace_def)
  have rel: \<open>relativeFilePath ''/'' (QDir []) ''/a"b'' = ''a"b''\<close>
    by (simp add: relativeFilePath_def QDir_def absolutePath_def cleanPath_def isRelativePath_def
        segments_def split_on_def Let_def)
  show ?thesis
    using r rel
    by (simp add: get_path_split_def QDir_def isRelative_def isRelativePath_def Let_def
        and_then_def returns_def fresh_def)
qed


section \<open>Stopping the mount\<close>

lemma SshfsMount_result:
  assumes "SshfsMount source target gid_map uid_map s = (Inr m0, s1)"
  shows "joinable m0" and "worker m0 = Serving" and "\<not> stop_invoked m0" and "threads_started m0 = 1"
  using assms
  by (auto simp: SshfsMount_def and_then_def returns_def split: prod.splits sum.splits)

text \<open>
  C9. Take a handle as the constructor returned it, or as it is after the worker has left
  the serve loop by itself. Calling \<open>stop\<close> returns (it neither blocks nor throws), after
  it the worker has finished and the thread is no longer joinable; a second \<open>stop\<close>, and
  the destructor after it, return as well and change nothing. The handle started one thread
  and never starts another.
\<close>

theorem stop_twice:
  assumes "SshfsMount source target gid_map uid_map s = (Inr m0, s1)"
    and "m = m0 \<or> m = m0\<lparr>worker := Finished, console := console m0 @ [''Stopped'']\<rparr>"
  shows "\<exists>m1. stop m = Inr m1 \<and> stop m1 = Inr m1 \<and> destroy m1 = Inr m1
              \<and> worker m1 = Finished \<and> \<not> joinable m1 \<and> threads_started m1 = 1"
proof -
  note c = SshfsMount_result [OF assms(1)]
  from assms(2) show ?thesis
  proof
    assume "m = m0"
    then show ?thesis
      using c by (simp add: stop_def destroy_def server_stop_def thread_join_def Let_def)
  next
    assume "m = m0\<lparr>worker := Finished, console := console m0 @ [''Stopped'']\<rparr>"
    then show ?thesis
      using c by (simp add: stop_def destroy_def server_stop_def thread_join_def Let_def)
  qed
qed

theorem stop_twice_witness:
  "\<exists>m0 s1 m1. SshfsMount ''/src'' ''/r/a/b/c'' Map.empty Map.empty (fresh posix vm) = (Inr m0, s1)
      \<and> stop m0 = Inr m1 \<and> stop m1 = Inr m1 \<and> destroy m1 = Inr m1
      \<and> worker m1 = Finished \<and> \<not> joinable m1 \<and> threads_started m1 = 1"
proof -
  let ?s = "fresh posix vm"
  have t: "abs_string ([''r''] @ ''a'' # [''b'', ''c'']) = ''/r/a/b/c''"
    by (simp add: abs_string_def)
  have h1: "transport ?s = posix" by (rule vm_session)
  have h2: "list_all plain_name ([''r''] @ ''a'' # [''b'', ''c''])" by (simp add: vm_names)
  have h3: "length ''a'' < npos" by (rule small_length)
  have h4: "all_exist (directories (remote ?s)) [''r'']" by (simp only: vm_session vm_host)
  have h5: "directories (remote ?s) ([''r''] @ [''a'']) = None" by (simp add: vm_session vm_host)
  have h6: "list_all plain_char (login_user (remote ?s))" by (simp only: vm_session vm_host)
  have h7: "list_all plain_char (login_group (remote ?s))" by (simp only: vm_session vm_host)
  have h8: "sshfs_binary (remote ?s) = Some ''/usr/bin/sshfs''" by (simp only: vm_session vm_host)
  have h9: "stoi (login_uid (remote ?s) @ [CHR 0x0A]) = Inr 1000"
    by (simp only: vm_session vm_host stoi_1000)
  have h10: "stoi (login_gid (remote ?s) @ [CHR 0x0A]) = Inr 1000"
    by (simp only: vm_session vm_host stoi_1000)
  note first = make_sftp_server_creates [OF h1 h2 h3 h4 h5 h6 h7 h8 h9 h10, of "''/src''" Map.empty Map.empty]
  obtain m0 s1 where c: "SshfsMount ''/src'' ''/r/a/b/c'' Map.empty Map.empty ?s = (Inr m0, s1)"
    unfolding SshfsMount_def and_then_def first [unfolded t] by (simp add: returns_def)
  show ?thesis
    using stop_twice [OF c, of m0] c by blast
qed

end
